theory Spec2Isabelle
  imports Main "HOL-Library.Word"
begin

section \<open>Client-side router\<close>

text \<open>
  The router is an immediately invoked function that owns a fixed set of route tokens and
  reads \<^verbatim>\<open>location.pathname\<close>. JavaScript strings are modelled as \<^typ>\<open>string\<close>;
  the pathname, which the source reads from the browser, is an explicit argument.
\<close>

definition routes :: "string list" where
  "routes =
    [''signup'', ''account-profile'', ''account-security'', ''account-sessions'',
     ''account-easter-eggs'', ''verify-email'', ''username'', ''password'', ''2fa'',
     ''2fa-verify'', ''reset'', ''done'', ''strawberry-history'']"

text \<open>\<^verbatim>\<open>s.replace(/^\/+/, '')\<close>: the run of slashes at the start of the string is removed.\<close>

definition strip_leading_slashes :: "string \<Rightarrow> string" where
  "strip_leading_slashes s = dropWhile (\<lambda>c. c = CHR ''/'') s"

text \<open>\<^verbatim>\<open>s.replace(/\/+$/, '')\<close>: the run of slashes at the end of the string is removed.\<close>

definition strip_trailing_slashes :: "string \<Rightarrow> string" where
  "strip_trailing_slashes s = rev (dropWhile (\<lambda>c. c = CHR ''/'') (rev s))"

text \<open>The local constant \<^verbatim>\<open>path\<close> that both \<^verbatim>\<open>getRoute\<close> and \<^verbatim>\<open>getRouteParam\<close> compute.\<close>

definition route_path :: "string \<Rightarrow> string" where
  "route_path pathname = strip_trailing_slashes (strip_leading_slashes pathname)"

definition getRoute :: "string \<Rightarrow> string" where
  "getRoute pathname =
    (let path = route_path pathname in
     if path \<in> set routes then path
     else if path \<noteq> [] \<and> CHR ''/'' \<notin> set path then ''profile''
     else ''username'')"

text \<open>The result \<^verbatim>\<open>null\<close> is \<^term>\<open>None\<close>.\<close>

definition getRouteParam :: "string \<Rightarrow> string \<Rightarrow> string option" where
  "getRouteParam pathname paramName =
    (let path = route_path pathname in
     if path \<noteq> [] \<and> CHR ''/'' \<notin> set path \<and> paramName = ''username'' then Some path
     else None)"

text \<open>
  \<^verbatim>\<open>navigate(to)\<close> pushes the history entry \<^verbatim>\<open>'/' + to\<close> and renders: the result is
  the new pathname and the route token dispatched in the \<^verbatim>\<open>cyb:route\<close> event.
\<close>

definition navigate :: "string \<Rightarrow> string \<times> string" where
  "navigate to = (let pathname = ''/'' @ to in (pathname, getRoute pathname))"

text \<open>A run of \<open>n\<close> slashes.\<close>

abbreviation slashes :: "nat \<Rightarrow> string" where
  "slashes n \<equiv> replicate n (CHR ''/'')"

section \<open>Exceptions\<close>

text \<open>
  An exception object, with the two properties that the \<^verbatim>\<open>catch\<close> blocks of the
  source read. The exceptions of the platform, those of \<^verbatim>\<open>fetch\<close> among them, are \<^verbatim>\<open>TypeError\<close> and \<^verbatim>\<open>DOMException\<close> objects, whose
  \<^verbatim>\<open>name\<close> and \<^verbatim>\<open>message\<close> are strings.
\<close>

record js_error =
  name :: string
  message :: string

text \<open>\<^verbatim>\<open>new Error(message)\<close>.\<close>

definition Error :: "string \<Rightarrow> js_error" where
  "Error m = \<lparr>name = ''Error'', message = m\<rparr>"

text \<open>
  The exceptions of the platform on the paths of the passkey flows: a call receives more
  arguments than the engine accepts, \<^verbatim>\<open>atob\<close> or \<^verbatim>\<open>btoa\<close> rejects its argument, a
  property of \<^verbatim>\<open>undefined\<close> is read. The messages differ between browsers.
\<close>

definition range_error :: js_error where
  "range_error = \<lparr>name = ''RangeError'', message = ''Maximum call stack size exceeded''\<rparr>"

definition invalid_character_error :: js_error where
  "invalid_character_error =
    \<lparr>name = ''InvalidCharacterError'',
     message = ''The string to be decoded is not correctly encoded.''\<rparr>"

definition type_error :: js_error where
  "type_error =
    \<lparr>name = ''TypeError'', message = ''Cannot read properties of undefined''\<rparr>"

section \<open>Base64url transport of WebAuthn buffers\<close>

text \<open>
  Both passkey flows convert between binary buffers and base64url strings inline, with the
  platform functions \<^verbatim>\<open>btoa\<close> and \<^verbatim>\<open>atob\<close>. A buffer is a list of bytes. A binary
  string (the argument of \<^verbatim>\<open>btoa\<close>, the result of \<^verbatim>\<open>atob\<close>) is a list of code units.
  Base64 text is ASCII and is a \<^typ>\<open>string\<close>. A result is \<^term>\<open>Inr\<close> of a value,
  or \<^term>\<open>Inl\<close> of the exception that is thrown.
\<close>

type_synonym byte = "8 word"

text \<open>
  \<^verbatim>\<open>String.fromCharCode(...new Uint8Array(buf))\<close>: the spread passes every byte as
  one argument of the call, and the result has one code unit for each byte. An engine
  accepts only so many arguments in a call and throws \<^verbatim>\<open>RangeError\<close> beyond; the
  number depends on the engine and is the parameter \<open>argument_limit\<close>.
\<close>

definition fromCharCode :: "nat \<Rightarrow> byte list \<Rightarrow> js_error + nat list" where
  "fromCharCode argument_limit buf =
    (if argument_limit < length buf then Inl range_error else Inr (map unat buf))"

text \<open>
  \<^verbatim>\<open>Uint8Array.from(str, (c) => c.charCodeAt(0))\<close>: each code unit is stored in an
  unsigned 8-bit element, that is, modulo 256.
\<close>

definition Uint8Array_from :: "nat list \<Rightarrow> byte list" where
  "Uint8Array_from str = map of_nat str"

subsection \<open>The platform functions\<close>

text \<open>
  \<^verbatim>\<open>btoa\<close> and \<^verbatim>\<open>atob\<close> belong to the browser. They are modelled after the HTML
  standard: \<^verbatim>\<open>btoa\<close> throws when a code unit exceeds 255 and otherwise encodes with
  the base64 alphabet of RFC 4648 and \<open>=\<close> padding; \<^verbatim>\<open>atob\<close> is the forgiving base64
  decoder; both throw \<^verbatim>\<open>InvalidCharacterError\<close>.
\<close>

definition base64_alphabet :: string where
  "base64_alphabet = ''ABCDEFGHIJKLMNOPQRSTUVWXYZabcdefghijklmnopqrstuvwxyz0123456789+/''"

text \<open>The character of a 6-bit value; every caller passes a value below 64.\<close>

definition sextet_char :: "nat \<Rightarrow> char" where
  "sextet_char n = base64_alphabet ! n"

text \<open>
  The position of a character in the alphabet, and 64 for a character that is not in it.
\<close>

definition char_sextet :: "char \<Rightarrow> nat" where
  "char_sextet c = length (takeWhile (\<lambda>x. x \<noteq> c) base64_alphabet)"

text \<open>
  Encoding takes three code units at a time as one 24-bit number and writes its four 6-bit
  digits. A remainder of one code unit is padded with four zero bits and gives two digits
  and \<open>==\<close>; a remainder of two is padded with two zero bits and gives three digits and
  \<open>=\<close>.
\<close>

fun btoa_groups :: "nat list \<Rightarrow> string" where
  "btoa_groups [] = []"
| "btoa_groups [a] =
    (let n = a * 16
     in [sextet_char (n div 64), sextet_char (n mod 64), CHR ''='', CHR ''=''])"
| "btoa_groups [a, b] =
    (let n = (a * 256 + b) * 4
     in [sextet_char (n div 4096), sextet_char (n div 64 mod 64), sextet_char (n mod 64),
         CHR ''=''])"
| "btoa_groups (a # b # c # rest) =
    (let n = a * 65536 + b * 256 + c
     in [sextet_char (n div 262144), sextet_char (n div 4096 mod 64),
         sextet_char (n div 64 mod 64), sextet_char (n mod 64)] @ btoa_groups rest)"

definition btoa :: "nat list \<Rightarrow> js_error + string" where
  "btoa str =
    (if list_all (\<lambda>c. c \<le> 255) str then Inr (btoa_groups str)
     else Inl invalid_character_error)"

definition ascii_whitespace :: "char \<Rightarrow> bool" where
  "ascii_whitespace c = (c \<in> set [CHR 0x09, CHR 0x0A, CHR 0x0C, CHR 0x0D, CHR 0x20])"

text \<open>
  When the length of the data is a multiple of four, one or two \<open>=\<close> at its end are
  removed.
\<close>

definition strip_padding :: "string \<Rightarrow> string" where
  "strip_padding d =
    (if length d mod 4 = 0 \<and> d \<noteq> [] \<and> last d = CHR ''='' then
       (let d' = butlast d
        in if d' \<noteq> [] \<and> last d' = CHR ''='' then butlast d' else d')
     else d)"

text \<open>
  Decoding collects four 6-bit digits into a 24-bit number and writes its three bytes. Of a
  remainder of two digits (12 bits) the last four bits are discarded and one byte is
  written; of a remainder of three digits (18 bits) the last two bits are discarded and two
  bytes are written. A remainder of one digit never reaches this function.
\<close>

fun atob_groups :: "nat list \<Rightarrow> nat list" where
  "atob_groups (p # q # r # s # rest) =
    (let n = p * 262144 + q * 4096 + r * 64 + s
     in [n div 65536, n div 256 mod 256, n mod 256] @ atob_groups rest)"
| "atob_groups [p, q, r] =
    (let n = p * 4096 + q * 64 + r
     in [n div 1024, n div 4 mod 256])"
| "atob_groups [p, q] =
    (let n = p * 64 + q
     in [n div 16])"
| "atob_groups [p] = []"
| "atob_groups [] = []"

definition atob :: "string \<Rightarrow> js_error + nat list" where
  "atob dat =
    (let d = strip_padding (filter (\<lambda>c. \<not> ascii_whitespace c) dat)
     in if length d mod 4 = 1 then Inl invalid_character_error
        else if \<not> list_all (\<lambda>c. char_sextet c < 64) d then Inl invalid_character_error
        else Inr (atob_groups (map char_sextet d)))"

subsection \<open>The conversions of the source\<close>

text \<open>\<^verbatim>\<open>s.replace(/x/g, 'y')\<close> for single characters \<open>x\<close> and \<open>y\<close>.\<close>

definition replace_char :: "char \<Rightarrow> char \<Rightarrow> string \<Rightarrow> string" where
  "replace_char x y s = map (\<lambda>c. if c = x then y else c) s"

text \<open>\<^verbatim>\<open>s.replace(/x/g, '')\<close>.\<close>

definition remove_char :: "char \<Rightarrow> string \<Rightarrow> string" where
  "remove_char x s = filter (\<lambda>c. c \<noteq> x) s"

text \<open>
  \<^verbatim>\<open>btoa(String.fromCharCode(...new Uint8Array(buf))).replace(/\+/g, '-')
  .replace(/\//g, '_').replace(/=/g, '')\<close>
\<close>

definition base64url_encode :: "nat \<Rightarrow> byte list \<Rightarrow> js_error + string" where
  "base64url_encode argument_limit buf =
    (case fromCharCode argument_limit buf of
       Inl e \<Rightarrow> Inl e
     | Inr str \<Rightarrow>
         (case btoa str of
            Inl e \<Rightarrow> Inl e
          | Inr s \<Rightarrow>
              Inr (remove_char (CHR ''='') (replace_char (CHR ''/'') (CHR ''_'')
                (replace_char (CHR ''+'') (CHR ''-'') s)))))"

text \<open>
  \<^verbatim>\<open>Uint8Array.from(atob(s.replace(/-/g, '+').replace(/_/g, '/')),
  (c) => c.charCodeAt(0))\<close>
\<close>

definition base64url_decode :: "string \<Rightarrow> js_error + byte list" where
  "base64url_decode s =
    (case atob (replace_char (CHR ''_'') (CHR ''/'') (replace_char (CHR ''-'') (CHR ''+'') s)) of
       Inl e \<Rightarrow> Inl e
     | Inr str \<Rightarrow> Inr (Uint8Array_from str))"

subsection \<open>Base64url as the specification describes it\<close>

text \<open>
  The 6-bit digits of a sequence of bytes, three bytes giving four digits, and the number
  of \<open>=\<close> characters that pad the base64 text of the sequence.
\<close>

fun sextets :: "nat list \<Rightarrow> nat list" where
  "sextets [] = []"
| "sextets [a] = (let n = a * 16 in [n div 64, n mod 64])"
| "sextets [a, b] = (let n = (a * 256 + b) * 4 in [n div 4096, n div 64 mod 64, n mod 64])"
| "sextets (a # b # c # rest) =
    (let n = a * 65536 + b * 256 + c
     in [n div 262144, n div 4096 mod 64, n div 64 mod 64, n mod 64] @ sextets rest)"

fun padding :: "nat list \<Rightarrow> nat" where
  "padding [] = 0"
| "padding [a] = 2"
| "padding [a, b] = 1"
| "padding (a # b # c # rest) = padding rest"

text \<open>
  The URL-safe alphabet, with \<open>-\<close> and \<open>_\<close> in the places of \<open>+\<close> and \<open>/\<close>, and the
  base64url text of a buffer: its digits in this alphabet, without padding.
\<close>

definition base64url_alphabet :: string where
  "base64url_alphabet = ''ABCDEFGHIJKLMNOPQRSTUVWXYZabcdefghijklmnopqrstuvwxyz0123456789-_''"

definition base64url_text :: "byte list \<Rightarrow> string" where
  "base64url_text buf = map (\<lambda>n. base64url_alphabet ! n) (sextets (map unat buf))"

section \<open>HTTP client wrapper\<close>

text \<open>
  \<^verbatim>\<open>apiCall(endpoint, options = {}, timeoutMs = 10000)\<close> wraps \<^verbatim>\<open>fetch\<close>. The model
  makes explicit what the function reads from the browser (the online flag, the behaviour
  of the network) and what it does to it (the request, the abort, the navigation). Strings
  hold UTF-8 bytes, so that the Russian literals of the source are lists of bytes; the
  tests that the source performs on strings (emptiness, search for an ASCII fragment) do
  not depend on this choice.
\<close>

definition API_BASE :: string where
  "API_BASE = ''https://api.cyblight.org''"

text \<open>\<^verbatim>\<open>s.startsWith(p)\<close> and \<^verbatim>\<open>s.includes(x)\<close>.\<close>

definition startsWith :: "string \<Rightarrow> string \<Rightarrow> bool" where
  "startsWith s p = (take (length p) s = p)"

fun includes_str :: "string \<Rightarrow> string \<Rightarrow> bool" where
  "includes_str [] x = (x = [])"
| "includes_str (c # s) x = (startsWith (c # s) x \<or> includes_str s x)"

text \<open>
  What \<^verbatim>\<open>json()\<close> and \<^verbatim>\<open>text()\<close> deliver: a synthetic response resolves
  \<^verbatim>\<open>json()\<close> to the object \<^verbatim>\<open>{ error: message }\<close> and \<^verbatim>\<open>text()\<close> to the empty string; a
  response of the server carries the bytes that the server sent.
\<close>

datatype body = Error_object string | Server_body string

record response =
  ok :: bool
  status :: nat
  statusText :: string
  body :: body

text \<open>
  The options object of a call. An absent property is \<^term>\<open>None\<close>; the headers are the
  key-value pairs of the \<^verbatim>\<open>headers\<close> object, empty when it is absent.
\<close>

record options =
  http_method :: "string option"
  credentials :: "string option"
  headers :: "(string \<times> string) list"
  payload :: "string option"

text \<open>The argument of \<^verbatim>\<open>fetch\<close>; the abort signal is always the one of this call.\<close>

record request =
  url :: string
  req_method :: "string option"
  req_credentials :: string
  req_headers :: "(string \<times> string) list"
  req_payload :: "string option"

text \<open>
  The behaviour of the network for the request of one call: the promise of \<^verbatim>\<open>fetch\<close>
  is fulfilled with a response or rejected with an exception after some milliseconds, or it
  stays pending for ever.
\<close>

datatype fetch_behaviour = Resolves nat response | Rejects nat js_error | Never

text \<open>What a call reads from the browser: \<^verbatim>\<open>navigator.onLine\<close> and the network.\<close>

record browser =
  onLine :: bool
  network :: fetch_behaviour

datatype effect = Fetch request | Abort | Navigate string

record api_result =
  returned :: response
  effects :: "effect list"
  elapsed :: nat

text \<open>"No internet connection. Check the connection." in Russian.\<close>

definition msg_offline :: string where
  "msg_offline = map char_of
    ([208, 157, 208, 181, 209, 130, 32, 208, 191, 208, 190, 208, 180, 208, 186, 208, 187,
     209, 142, 209, 135, 208, 181, 208, 189, 208, 184, 209, 143, 32, 208, 186, 32, 208,
     184, 208, 189, 209, 130, 208, 181, 209, 128, 208, 189, 208, 181, 209, 130, 209, 131,
     46, 32, 208, 159, 209, 128, 208, 190, 208, 178, 208, 181, 209, 128, 209, 140, 209,
     130, 208, 181, 32, 209, 129, 208, 190, 208, 181, 208, 180, 208, 184, 208, 189, 208,
     181, 208, 189, 208, 184, 208, 181, 46] :: nat list)"

text \<open>"The waiting time is exceeded. The server does not respond." in Russian.\<close>

definition msg_timeout :: string where
  "msg_timeout = map char_of
    ([208, 159, 209, 128, 208, 181, 208, 178, 209, 139, 209, 136, 208, 181, 208, 189, 208,
     190, 32, 208, 178, 209, 128, 208, 181, 208, 188, 209, 143, 32, 208, 190, 208, 182,
     208, 184, 208, 180, 208, 176, 208, 189, 208, 184, 209, 143, 46, 32, 208, 161, 208,
     181, 209, 128, 208, 178, 208, 181, 209, 128, 32, 208, 189, 208, 181, 32, 208, 190,
     209, 130, 208, 178, 208, 181, 209, 135, 208, 176, 208, 181, 209, 130, 46] :: nat list)"

text \<open>"Could not connect to the server. Check the internet." in Russian.\<close>

definition msg_failed_to_fetch :: string where
  "msg_failed_to_fetch = map char_of
    ([208, 157, 208, 181, 32, 209, 131, 208, 180, 208, 176, 208, 187, 208, 190, 209, 129,
     209, 140, 32, 208, 191, 208, 190, 208, 180, 208, 186, 208, 187, 209, 142, 209, 135,
     208, 184, 209, 130, 209, 140, 209, 129, 209, 143, 32, 208, 186, 32, 209, 129, 208,
     181, 209, 128, 208, 178, 208, 181, 209, 128, 209, 131, 46, 32, 208, 159, 209, 128,
     208, 190, 208, 178, 208, 181, 209, 128, 209, 140, 209, 130, 208, 181, 32, 208, 184,
     208, 189, 209, 130, 208, 181, 209, 128, 208, 189, 208, 181, 209, 130, 46] :: nat list)"

text \<open>"Network error. Check the internet connection." in Russian.\<close>

definition msg_network_error :: string where
  "msg_network_error = map char_of
    ([208, 158, 209, 136, 208, 184, 208, 177, 208, 186, 208, 176, 32, 209, 129, 208, 181,
     209, 130, 208, 184, 46, 32, 208, 159, 209, 128, 208, 190, 208, 178, 208, 181, 209,
     128, 209, 140, 209, 130, 208, 181, 32, 208, 191, 208, 190, 208, 180, 208, 186, 208,
     187, 209, 142, 209, 135, 208, 181, 208, 189, 208, 184, 208, 181, 32, 208, 186, 32,
     208, 184, 208, 189, 209, 130, 208, 181, 209, 128, 208, 189, 208, 181, 209, 130, 209,
     131, 46] :: nat list)"

text \<open>"Unknown network error" in Russian.\<close>

definition msg_unknown :: string where
  "msg_unknown = map char_of
    ([208, 157, 208, 181, 208, 184, 208, 183, 208, 178, 208, 181, 209, 129, 209, 130, 208,
     189, 208, 176, 209, 143, 32, 208, 190, 209, 136, 208, 184, 208, 177, 208, 186, 208,
     176, 32, 209, 129, 208, 181, 209, 130, 208, 184] :: nat list)"

text \<open>The response that is returned without a request when the browser is offline.\<close>

definition offline_response :: response where
  "offline_response =
    \<lparr>ok = False, status = 0, statusText = ''No internet connection'',
     body = Error_object msg_offline\<rparr>"

text \<open>
  \<^verbatim>\<open>{ 'Content-Type': 'application/json', ...(options.headers || {}) }\<close>: the content
  type comes first, with the value of the caller when the caller gives one.
\<close>

definition merge_headers :: "(string \<times> string) list \<Rightarrow> (string \<times> string) list" where
  "merge_headers hs =
    (''Content-Type'',
       case map_of hs ''Content-Type'' of None \<Rightarrow> ''application/json'' | Some v \<Rightarrow> v) #
    filter (\<lambda>h. fst h \<noteq> ''Content-Type'') hs"

text \<open>
  The request that the \<^verbatim>\<open>try\<close> block builds: the endpoint is prefixed with the API
  origin unless it starts with \<open>http\<close>, and the credentials default to \<open>include\<close> (also
  for an empty string, which is falsy).
\<close>

definition build_request :: "string \<Rightarrow> options \<Rightarrow> request" where
  "build_request endpoint opts =
    \<lparr>url = (if startsWith endpoint ''http'' then endpoint else API_BASE @ endpoint),
     req_method = http_method opts,
     req_credentials =
       (case credentials opts of
          None \<Rightarrow> ''include''
        | Some c \<Rightarrow> if c = [] then ''include'' else c),
     req_headers = merge_headers (headers opts),
     req_payload = payload opts\<rparr>"

text \<open>
  The exception with which an aborted \<^verbatim>\<open>fetch\<close> is rejected. Its message differs
  between browsers and is not read by the \<^verbatim>\<open>catch\<close> block on this path.
\<close>

definition abort_error :: js_error where
  "abort_error = \<lparr>name = ''AbortError'', message = ''signal is aborted without reason''\<rparr>"

text \<open>
  \<^verbatim>\<open>await fetch(url, {..., signal: controller.signal})\<close> under the timer
  \<^verbatim>\<open>setTimeout(() => controller.abort(), timeoutMs)\<close>: a promise that settles before
  the timer fires gives its own outcome; otherwise the timer aborts the request at
  \<open>timeoutMs\<close> and the promise is rejected with the abort exception. The result is the
  outcome, the time at which it is reached and whether the abort took place.
\<close>

fun await_fetch :: "nat \<Rightarrow> fetch_behaviour \<Rightarrow> (js_error + response) \<times> nat \<times> bool" where
  "await_fetch timeoutMs (Resolves t r) =
    (if t < timeoutMs then (Inr r, t, False) else (Inl abort_error, timeoutMs, True))"
| "await_fetch timeoutMs (Rejects t e) =
    (if t < timeoutMs then (Inl e, t, False) else (Inl abort_error, timeoutMs, True))"
| "await_fetch timeoutMs Never = (Inl abort_error, timeoutMs, True)"

text \<open>The condition under which a response makes \<open>apiCall\<close> navigate.\<close>

definition redirects :: "string \<Rightarrow> response \<Rightarrow> bool" where
  "redirects endpoint r =
    (status r = 401 \<and>
     \<not> includes_str endpoint ''/auth/me'' \<and>
     \<not> includes_str endpoint ''/auth/login'' \<and>
     \<not> includes_str endpoint ''/auth/register'' \<and>
     \<not> includes_str endpoint ''/auth/login-history'' \<and>
     \<not> includes_str endpoint ''/auth/trusted-devices'')"

text \<open>The \<^verbatim>\<open>catch\<close> block: the response made from an exception.\<close>

definition error_response :: "js_error \<Rightarrow> response" where
  "error_response error =
    (let errorMessage =
       (if name error = ''AbortError'' then msg_timeout
        else if includes_str (message error) ''Failed to fetch'' then msg_failed_to_fetch
        else if includes_str (message error) ''NetworkError'' then msg_network_error
        else if message error \<noteq> [] then message error else msg_unknown)
     in \<lparr>ok = False, status = 0,
         statusText = (if name error = ''AbortError'' then ''Request timeout'' else message error),
         body = Error_object errorMessage\<rparr>)"

definition apiCall :: "browser \<Rightarrow> string \<Rightarrow> options \<Rightarrow> nat option \<Rightarrow> api_result" where
  "apiCall env endpoint opts timeoutArg =
    (let timeoutMs = (case timeoutArg of None \<Rightarrow> 10000 | Some t \<Rightarrow> t)
     in if \<not> onLine env then \<lparr>returned = offline_response, effects = [], elapsed = 0\<rparr>
        else
          (let req = build_request endpoint opts
           in case await_fetch timeoutMs (network env) of
                (Inr r, t, aborted) \<Rightarrow>
                  \<lparr>returned = r,
                   effects = Fetch req #
                     (if redirects endpoint r then [Navigate ''username''] else []),
                   elapsed = t\<rparr>
              | (Inl error, t, aborted) \<Rightarrow>
                  \<lparr>returned = error_response error,
                   effects = Fetch req # (if aborted then [Abort] else []),
                   elapsed = t\<rparr>))"

text \<open>
  The endpoints that the specification calls the excluded list: the five strings for which
  the source tests.
\<close>

definition excluded_endpoints :: "string list" where
  "excluded_endpoints =
    [''/auth/me'', ''/auth/login'', ''/auth/register'', ''/auth/login-history'',
     ''/auth/trusted-devices'']"

section \<open>Global error reporting\<close>

text \<open>
  The handlers \<^verbatim>\<open>window.onerror\<close> and \<^verbatim>\<open>window.onunhandledrejection\<close> share the set
  \<^verbatim>\<open>errorCache\<close> and the counter \<^verbatim>\<open>errorCount\<close>, and they start timers of 60000 ms.
  Time is a count of milliseconds. The state holds the timers that are pending, each with
  the time from which it may fire, and the log of the reports that were forwarded, that is,
  of the calls \<^verbatim>\<open>apiCall('/error/report', ...)\<close>.
\<close>

definition MAX_ERRORS_PER_MINUTE :: int where
  "MAX_ERRORS_PER_MINUTE = 10"

text \<open>What a timer does when it fires.\<close>

datatype timer_action = Delete_key string | Decrement_count

text \<open>
  What happens in the page: an uncaught exception (message, source, line, column), an
  unhandled rejection (the \<^verbatim>\<open>message\<close> of its reason, when the reason has one), or the
  event loop running the oldest timer.
\<close>

datatype input = Sync_error string string nat nat | Rejection "string option" | Run_timer

record reporter =
  errorCache :: "string list"
  errorCount :: int
  timers :: "(nat \<times> timer_action) list"
  forwarded :: "(nat \<times> input) list"

definition initial :: reporter where
  "initial = \<lparr>errorCache = [], errorCount = 0, timers = [], forwarded = []\<rparr>"

text \<open>The decimal digits of a number, as a template literal prints it.\<close>

fun decimal :: "nat \<Rightarrow> string" where
  "decimal n =
    (if n < 10 then [char_of (48 + n)] else decimal (n div 10) @ [char_of (48 + n mod 10)])"

text \<open>
  The keys \<^verbatim>\<open>`${message}:${source}:${lineno}`\<close> and \<^verbatim>\<open>`${error?.message}:promise`\<close>.
\<close>

fun errorKey :: "input \<Rightarrow> string" where
  "errorKey (Sync_error msg src lineno colno) =
    msg @ '':'' @ src @ '':'' @ decimal lineno"
| "errorKey (Rejection reason_message) =
    (case reason_message of None \<Rightarrow> ''undefined'' | Some m \<Rightarrow> m) @ '':promise''"
| "errorKey Run_timer = []"

text \<open>\<^verbatim>\<open>setTimeout(f, 60000)\<close> at time \<open>now\<close>: the timer joins the queue.\<close>

definition setTimeout :: "nat \<Rightarrow> timer_action \<Rightarrow> reporter \<Rightarrow> reporter" where
  "setTimeout now f s = s\<lparr>timers := timers s @ [(now + 60000, f)]\<rparr>"

definition onerror :: "nat \<Rightarrow> input \<Rightarrow> reporter \<Rightarrow> reporter" where
  "onerror now ev s =
    (if errorKey ev \<in> set (errorCache s) then s
     else
       (let s1 = setTimeout now (Delete_key (errorKey ev))
                   (s\<lparr>errorCache := errorKey ev # errorCache s\<rparr>);
            s2 = s1\<lparr>errorCount := errorCount s1 + 1\<rparr>
        in if errorCount s2 > MAX_ERRORS_PER_MINUTE then s2
           else
             (let s3 = setTimeout now Decrement_count s2
              in s3\<lparr>forwarded := forwarded s3 @ [(now, ev)]\<rparr>)))"

definition onunhandledrejection :: "nat \<Rightarrow> input \<Rightarrow> reporter \<Rightarrow> reporter" where
  "onunhandledrejection now ev s =
    (if errorKey ev \<in> set (errorCache s) then s
     else
       (let s1 = setTimeout now (Delete_key (errorKey ev))
                   (s\<lparr>errorCache := errorKey ev # errorCache s\<rparr>);
            s2 = s1\<lparr>errorCount := errorCount s1 + 1\<rparr>
        in if errorCount s2 > MAX_ERRORS_PER_MINUTE then s2
           else s2\<lparr>forwarded := forwarded s2 @ [(now, ev)]\<rparr>))"

text \<open>The callbacks of the timers.\<close>

fun fire :: "timer_action \<Rightarrow> reporter \<Rightarrow> reporter" where
  "fire (Delete_key k) s = s\<lparr>errorCache := removeAll k (errorCache s)\<rparr>"
| "fire Decrement_count s = s\<lparr>errorCount := errorCount s - 1\<rparr>"

text \<open>
  All timers have the same delay, so the queue is in the order in which the browser runs
  them. A timer never fires before its time; it may fire later.
\<close>

definition run_timer :: "nat \<Rightarrow> reporter \<Rightarrow> reporter" where
  "run_timer now s =
    (case timers s of
       [] \<Rightarrow> s
     | (due, f) # rest \<Rightarrow> if due \<le> now then fire f (s\<lparr>timers := rest\<rparr>) else s)"

fun step :: "nat \<Rightarrow> input \<Rightarrow> reporter \<Rightarrow> reporter" where
  "step now (Sync_error msg src lineno colno) s =
    onerror now (Sync_error msg src lineno colno) s"
| "step now (Rejection reason_message) s = onunhandledrejection now (Rejection reason_message) s"
| "step now Run_timer s = run_timer now s"

text \<open>A history of the page: inputs with the times at which they happen.\<close>

fun run :: "(nat \<times> input) list \<Rightarrow> reporter \<Rightarrow> reporter" where
  "run [] s = s"
| "run ((now, i) # rest) s = run rest (step now i s)"

text \<open>
  Two reports are about the same error when they have the same message, source and line;
  a rejection has a message only.
\<close>

fun same_error :: "input \<Rightarrow> input \<Rightarrow> bool" where
  "same_error (Sync_error m s l c) (Sync_error m' s' l' c') = (m = m' \<and> s = s' \<and> l = l')"
| "same_error (Rejection m) (Rejection m') = (m = m')"
| "same_error _ _ = False"

text \<open>The reports that are forwarded in the minute that ends at time \<open>T\<close>.\<close>

definition in_minute :: "nat \<Rightarrow> (nat \<times> input) list \<Rightarrow> (nat \<times> input) list" where
  "in_minute T log = filter (\<lambda>r. fst r \<le> T \<and> T < fst r + 60000) log"

subsection \<open>Invariants of the reporter\<close>

text \<open>The times of the pending timers that delete the key \<open>k\<close>, and of those that decrement.\<close>

definition delete_dues :: "string \<Rightarrow> (nat \<times> timer_action) list \<Rightarrow> nat list" where
  "delete_dues k ts = map fst (filter (\<lambda>p. snd p = Delete_key k) ts)"

definition decrement_dues :: "(nat \<times> timer_action) list \<Rightarrow> nat list" where
  "decrement_dues ts = map fst (filter (\<lambda>p. snd p = Decrement_count) ts)"

fun is_sync :: "input \<Rightarrow> bool" where
  "is_sync (Sync_error m s l c) = True"
| "is_sync _ = False"

fun is_rejection :: "input \<Rightarrow> bool" where
  "is_rejection (Rejection m) = True"
| "is_rejection _ = False"

text \<open>
  A key is in the cache exactly while its one deleting timer is pending, and that timer
  may not fire before every report with this key is 60000 ms old.
\<close>

definition cache_ok ::
  "nat \<Rightarrow> string list \<Rightarrow> (nat \<times> timer_action) list \<Rightarrow> (nat \<times> input) list \<Rightarrow> bool" where
  "cache_ok now cache ts log \<longleftrightarrow>
    (\<forall>k. if k \<in> set cache
         then \<exists>due. delete_dues k ts = [due] \<and>
                (\<forall>r \<in> set log. errorKey (snd r) = k \<longrightarrow> fst r + 60000 \<le> due)
         else delete_dues k ts = [] \<and>
                (\<forall>r \<in> set log. errorKey (snd r) = k \<longrightarrow> fst r + 60000 \<le> now))"

text \<open>
  Every report of an uncaught exception that is younger than 60000 ms has its decrementing
  timer pending, and the counter is at least the number of these timers plus the number of
  reports of rejections.
\<close>

definition count_ok ::
  "nat \<Rightarrow> int \<Rightarrow> (nat \<times> timer_action) list \<Rightarrow> (nat \<times> input) list \<Rightarrow> bool" where
  "count_ok now count ts log \<longleftrightarrow>
    (\<forall>r \<in> set log. is_sync (snd r) \<or> is_rejection (snd r)) \<and>
    (\<forall>T \<ge> now. length (filter (\<lambda>r. is_sync (snd r) \<and> T < fst r + 60000) log) \<le>
       length (filter (\<lambda>d. T < d) (decrement_dues ts))) \<and>
    int (length (decrement_dues ts)) + int (length (filter (\<lambda>r. is_rejection (snd r)) log))
      \<le> count"

text \<open>Reports with the same key are at least 60000 ms apart.\<close>

fun spaced :: "(nat \<times> input) list \<Rightarrow> bool" where
  "spaced [] = True"
| "spaced (r # rs) =
    ((\<forall>r' \<in> set rs. errorKey (snd r') = errorKey (snd r) \<longrightarrow> fst r + 60000 \<le> fst r') \<and>
     spaced rs)"

definition reporter_ok :: "nat \<Rightarrow> reporter \<Rightarrow> bool" where
  "reporter_ok now s \<longleftrightarrow>
    cache_ok now (errorCache s) (timers s) (forwarded s) \<and>
    count_ok now (errorCount s) (timers s) (forwarded s) \<and>
    (\<forall>T. length (in_minute T (forwarded s)) \<le> 10) \<and>
    spaced (forwarded s) \<and>
    (\<forall>r \<in> set (forwarded s). fst r \<le> now)"

section \<open>Passkey flows\<close>

text \<open>
  The click handler of the passkey login button and the function \<^verbatim>\<open>registerPasskey\<close>
  are asynchronous procedures that talk to the server through \<open>apiCall\<close>, to the
  platform through \<^verbatim>\<open>navigator.credentials\<close> and to the user. Each is modelled as a
  function from what these three answer to the list of actions that the procedure performs,
  in order. The changes of the button's label and state are not part of the model.
\<close>

text \<open>"Your browser does not support passkeys. Use a modern browser: Chrome, Edge, Safari or Firefox.", in the words of the source.\<close>

definition msg_browser_unsupported :: string where
  "msg_browser_unsupported = map char_of
    ([226, 157, 140, 32, 208, 146, 208, 176, 209, 136, 32, 208, 177, 209, 128, 208, 176,
      209, 131, 208, 183, 208, 181, 209, 128, 32, 208, 189, 208, 181, 32, 208, 191, 208,
      190, 208, 180, 208, 180, 208, 181, 209, 128, 208, 182, 208, 184, 208, 178, 208, 176,
      208, 181, 209, 130, 32, 208, 186, 208, 187, 209, 142, 209, 135, 208, 184, 32, 208,
      180, 208, 190, 209, 129, 209, 130, 209, 131, 208, 191, 208, 176, 32, 40, 112, 97,
      115, 115, 107, 101, 121, 115, 41, 46, 10, 10, 208, 152, 209, 129, 208, 191, 208, 190,
      208, 187, 209, 140, 208, 183, 209, 131, 208, 185, 209, 130, 208, 181, 32, 209, 129,
      208, 190, 208, 178, 209, 128, 208, 181, 208, 188, 208, 181, 208, 189, 208, 189, 209,
      139, 208, 185, 32, 208, 177, 209, 128, 208, 176, 209, 131, 208, 183, 208, 181, 209,
      128, 58, 32, 67, 104, 114, 111, 109, 101, 44, 32, 69, 100, 103, 101, 44, 32, 83, 97,
      102, 97, 114, 105, 32, 208, 184, 208, 187, 208, 184, 32, 70, 105, 114, 101, 102, 111,
      120, 46] :: nat list)"

text \<open>"Could not get the authentication parameters", in the words of the source.\<close>

definition msg_no_auth_options :: string where
  "msg_no_auth_options = map char_of
    ([208, 157, 208, 181, 32, 209, 131, 208, 180, 208, 176, 208, 187, 208, 190, 209, 129,
      209, 140, 32, 208, 191, 208, 190, 208, 187, 209, 131, 209, 135, 208, 184, 209, 130,
      209, 140, 32, 208, 191, 208, 176, 209, 128, 208, 176, 208, 188, 208, 181, 209, 130,
      209, 128, 209, 139, 32, 208, 176, 209, 131, 209, 130, 208, 181, 208, 189, 209, 130,
      208, 184, 209, 132, 208, 184, 208, 186, 208, 176, 209, 134, 208, 184, 208,
      184] :: nat list)"

text \<open>"Incorrect reply of the server", in the words of the source.\<close>

definition msg_bad_server_reply :: string where
  "msg_bad_server_reply = map char_of
    ([208, 157, 208, 181, 208, 186, 208, 190, 209, 128, 209, 128, 208, 181, 208, 186, 209,
      130, 208, 189, 209, 139, 208, 185, 32, 208, 190, 209, 130, 208, 178, 208, 181, 209,
      130, 32, 209, 129, 208, 181, 209, 128, 208, 178, 208, 181, 209, 128, 208,
      176] :: nat list)"

text \<open>"Authentication cancelled", in the words of the source.\<close>

definition msg_auth_cancelled :: string where
  "msg_auth_cancelled = map char_of
    ([208, 144, 209, 131, 209, 130, 208, 181, 208, 189, 209, 130, 208, 184, 209, 132, 208,
      184, 208, 186, 208, 176, 209, 134, 208, 184, 209, 143, 32, 208, 190, 209, 130, 208,
      188, 208, 181, 208, 189, 208, 181, 208, 189, 208, 176] :: nat list)"

text \<open>"Login error", in the words of the source.\<close>

definition msg_login_error :: string where
  "msg_login_error = map char_of
    ([208, 158, 209, 136, 208, 184, 208, 177, 208, 186, 208, 176, 32, 208, 178, 209, 133,
      208, 190, 208, 180, 208, 176] :: nat list)"

text \<open>"Could not log in with the passkey", in the words of the source.\<close>

definition msg_login_failed :: string where
  "msg_login_failed = map char_of
    ([208, 157, 208, 181, 32, 209, 131, 208, 180, 208, 176, 208, 187, 208, 190, 209, 129,
      209, 140, 32, 208, 178, 208, 190, 208, 185, 209, 130, 208, 184, 32, 208, 191, 208,
      190, 32, 208, 186, 208, 187, 209, 142, 209, 135, 209, 131, 32, 208, 180, 208, 190,
      209, 129, 209, 130, 209, 131, 208, 191, 208, 176] :: nat list)"

text \<open>"Authentication cancelled or timed out", in the words of the source.\<close>

definition msg_cancelled_or_timeout :: string where
  "msg_cancelled_or_timeout = map char_of
    ([226, 157, 140, 32, 208, 144, 209, 131, 209, 130, 208, 181, 208, 189, 209, 130, 208,
      184, 209, 132, 208, 184, 208, 186, 208, 176, 209, 134, 208, 184, 209, 143, 32, 208,
      190, 209, 130, 208, 188, 208, 181, 208, 189, 208, 181, 208, 189, 208, 176, 32, 208,
      184, 208, 187, 208, 184, 32, 208, 178, 209, 128, 208, 181, 208, 188, 209, 143, 32,
      208, 190, 208, 182, 208, 184, 208, 180, 208, 176, 208, 189, 208, 184, 209, 143, 32,
      208, 184, 209, 129, 209, 130, 208, 181, 208, 186, 208, 187, 208, 190] :: nat list)"

text \<open>"The passkey was not found on this device", in the words of the source.\<close>

definition msg_key_not_found :: string where
  "msg_key_not_found = map char_of
    ([226, 157, 140, 32, 208, 154, 208, 187, 209, 142, 209, 135, 32, 208, 180, 208, 190,
      209, 129, 209, 130, 209, 131, 208, 191, 208, 176, 32, 208, 189, 208, 181, 32, 208,
      189, 208, 176, 208, 185, 208, 180, 208, 181, 208, 189, 32, 208, 189, 208, 176, 32,
      209, 141, 209, 130, 208, 190, 208, 188, 32, 209, 131, 209, 129, 209, 130, 209, 128,
      208, 190, 208, 185, 209, 129, 209, 130, 208, 178, 208, 181] :: nat list)"

text \<open>"the cross mark and a space", in the words of the source.\<close>

definition cross_mark :: string where
  "cross_mark = map char_of
    ([226, 157, 140, 32] :: nat list)"

text \<open>"Your browser does not support passkeys", in the words of the source.\<close>

definition msg_unsupported :: string where
  "msg_unsupported = map char_of
    ([208, 146, 208, 176, 209, 136, 32, 208, 177, 209, 128, 208, 176, 209, 131, 208, 183,
      208, 181, 209, 128, 32, 208, 189, 208, 181, 32, 208, 191, 208, 190, 208, 180, 208,
      180, 208, 181, 209, 128, 208, 182, 208, 184, 208, 178, 208, 176, 208, 181, 209, 130,
      32, 208, 186, 208, 187, 209, 142, 209, 135, 208, 184, 32, 208, 180, 208, 190, 209,
      129, 209, 130, 209, 131, 208, 191, 208, 176] :: nat list)"

text \<open>"Error getting the registration parameters", in the words of the source.\<close>

definition msg_no_register_options :: string where
  "msg_no_register_options = map char_of
    ([208, 158, 209, 136, 208, 184, 208, 177, 208, 186, 208, 176, 32, 208, 191, 208, 190,
      208, 187, 209, 131, 209, 135, 208, 181, 208, 189, 208, 184, 209, 143, 32, 208, 191,
      208, 176, 209, 128, 208, 176, 208, 188, 208, 181, 209, 130, 209, 128, 208, 190, 208,
      178, 32, 209, 128, 208, 181, 208, 179, 208, 184, 209, 129, 209, 130, 209, 128, 208,
      176, 209, 134, 208, 184, 208, 184] :: nat list)"

text \<open>"Registration of the key cancelled", in the words of the source.\<close>

definition msg_register_cancelled :: string where
  "msg_register_cancelled = map char_of
    ([208, 160, 208, 181, 208, 179, 208, 184, 209, 129, 209, 130, 209, 128, 208, 176, 209,
      134, 208, 184, 209, 143, 32, 208, 186, 208, 187, 209, 142, 209, 135, 208, 176, 32,
      208, 190, 209, 130, 208, 188, 208, 181, 208, 189, 208, 181, 208, 189, 208,
      176] :: nat list)"

text \<open>"Enter a name for this passkey:", in the words of the source.\<close>

definition prompt_text :: string where
  "prompt_text = map char_of
    ([208, 146, 208, 178, 208, 181, 208, 180, 208, 184, 209, 130, 208, 181, 32, 208, 189,
      208, 176, 208, 183, 208, 178, 208, 176, 208, 189, 208, 184, 208, 181, 32, 208, 180,
      208, 187, 209, 143, 32, 209, 141, 209, 130, 208, 190, 208, 179, 208, 190, 32, 208,
      186, 208, 187, 209, 142, 209, 135, 208, 176, 32, 208, 180, 208, 190, 209, 129, 209,
      130, 209, 131, 208, 191, 208, 176, 58] :: nat list)"

text \<open>"My key", in the words of the source.\<close>

definition default_key_name :: string where
  "default_key_name = map char_of
    ([208, 156, 208, 190, 208, 185, 32, 208, 186, 208, 187, 209, 142, 209,
      135] :: nat list)"

text \<open>"Passkey", in the words of the source.\<close>

definition fallback_key_name :: string where
  "fallback_key_name = map char_of
    ([208, 154, 208, 187, 209, 142, 209, 135, 32, 208, 180, 208, 190, 209, 129, 209, 130,
      209, 131, 208, 191, 208, 176] :: nat list)"

text \<open>"The passkey was added", in the words of the source.\<close>

definition msg_key_added :: string where
  "msg_key_added = map char_of
    ([208, 154, 208, 187, 209, 142, 209, 135, 32, 208, 180, 208, 190, 209, 129, 209, 130,
      209, 131, 208, 191, 208, 176, 32, 209, 131, 209, 129, 208, 191, 208, 181, 209, 136,
      208, 189, 208, 190, 32, 208, 180, 208, 190, 208, 177, 208, 176, 208, 178, 208, 187,
      208, 181, 208, 189, 33, 32, 226, 156, 133] :: nat list)"

text \<open>"Error saving the key: ", in the words of the source.\<close>

definition msg_save_failed :: string where
  "msg_save_failed = map char_of
    ([208, 158, 209, 136, 208, 184, 208, 177, 208, 186, 208, 176, 32, 209, 129, 208, 190,
      209, 133, 209, 128, 208, 176, 208, 189, 208, 181, 208, 189, 208, 184, 209, 143, 32,
      208, 186, 208, 187, 209, 142, 209, 135, 208, 176, 58, 32] :: nat list)"

text \<open>"Error: ", in the words of the source.\<close>

definition msg_error_prefix :: string where
  "msg_error_prefix = map char_of
    ([208, 158, 209, 136, 208, 184, 208, 177, 208, 186, 208, 176, 58, 32] :: nat list)"

subsection \<open>Answers and actions\<close>

text \<open>
  The platform: whether \<^verbatim>\<open>window.PublicKeyCredential\<close> is present, and the number of
  arguments that the engine accepts in a call.
\<close>

record platform =
  has_PublicKeyCredential :: bool
  argument_limit :: nat

text \<open>
  The \<^verbatim>\<open>error\<close> property that the source reads from the JSON of a reply: the body
  may fail to parse, may lack the property, or may have it.
\<close>

datatype error_json = Unparsable | No_error_property | Error_property string

text \<open>The outcome of a WebAuthn ceremony: an exception, \<^verbatim>\<open>null\<close>, or a credential.\<close>

datatype 'c ceremony_result = Throws js_error | Cancelled | Credential 'c

record request_options =
  challenge :: string
  allowCredentials :: "string list"

record login_options_data =
  data_ok :: bool
  options :: "request_options option"
  challengeId :: string

record assertion =
  cred_id :: string
  rawId :: "byte list"
  clientDataJSON :: "byte list"
  authenticatorData :: "byte list"
  signature :: "byte list"
  userHandle :: "byte list option"

record login_world = platform +
  options_res_ok :: bool
  options_res_error :: error_json
  options_data :: "js_error + login_options_data"
  ceremony_get :: "assertion ceremony_result"
  login_res_ok :: bool
  login_res_error :: error_json

record creation_options =
  reg_challenge :: string
  user_id :: string
  excludeCredentials :: "string list"

record attestation =
  att_id :: string
  att_rawId :: "byte list"
  att_clientDataJSON :: "byte list"
  attestationObject :: "byte list"

record register_world = platform +
  r1_ok :: bool
  d1_ok :: bool
  d1_options :: "creation_options option"
  ceremony_create :: "attestation ceremony_result"
  prompt_answer :: "string option"
  r2_ok :: bool
  d2_ok :: bool
  d2_error :: error_json

text \<open>
  What a flow does: an alert, a message of the account page (level and text), a call of
  \<open>apiCall\<close> (endpoint and the strings of the JSON body), a ceremony (with the decoded
  challenge, the decoded user id for a registration, and the decoded credential ids), the
  prompt for the name of the key, a navigation, the reload of the list of passkeys.
\<close>

datatype action =
    Alert string
  | ShowMsg string string
  | Request string "string list"
  | Credentials_get "byte list" "byte list list"
  | Credentials_create "byte list" "byte list" "byte list list"
  | Prompt string string
  | Navigate_to string
  | Load_passkeys

fun is_request :: "action \<Rightarrow> bool" where
  "is_request (Request endpoint strings) = True"
| "is_request _ = False"

fun is_ceremony :: "action \<Rightarrow> bool" where
  "is_ceremony (Credentials_get c ids) = True"
| "is_ceremony (Credentials_create c u ids) = True"
| "is_ceremony _ = False"

text \<open>
  \<^verbatim>\<open>list.map(f)\<close> for a function that may throw: the results in order, or the first
  exception.
\<close>

fun map_or_throw :: "('a \<Rightarrow> js_error + 'b) \<Rightarrow> 'a list \<Rightarrow> js_error + 'b list" where
  "map_or_throw f [] = Inr []"
| "map_or_throw f (x # xs) =
    (case f x of
       Inl e \<Rightarrow> Inl e
     | Inr y \<Rightarrow> (case map_or_throw f xs of Inl e \<Rightarrow> Inl e | Inr ys \<Rightarrow> Inr (y # ys)))"

text \<open>\<^verbatim>\<open>e.error || fallback\<close>, where a body that does not parse stands for \<open>unparsable\<close>.\<close>

definition error_or :: "error_json \<Rightarrow> string \<Rightarrow> string \<Rightarrow> string" where
  "error_or e unparsable fallback =
    (case e of
       Unparsable \<Rightarrow> unparsable
     | No_error_property \<Rightarrow> fallback
     | Error_property m \<Rightarrow> if m = [] then fallback else m)"

subsection \<open>Login with a passkey\<close>

text \<open>
  The \<^verbatim>\<open>try\<close> block of the click handler: the actions performed, and the exception
  that ends the block, if one does.
\<close>

definition keyLogin_try :: "login_world \<Rightarrow> action list \<times> js_error option" where
  "keyLogin_try w =
    (let req1 = Request ''/auth/passkey/login/options'' []
     in if \<not> options_res_ok w then
          ([req1],
           Some (Error (error_or (options_res_error w) ''Unknown error'' msg_no_auth_options)))
        else
          (case options_data w of
             Inl e \<Rightarrow> ([req1], Some e)
           | Inr d \<Rightarrow>
               (case options d of
                  None \<Rightarrow> ([req1], Some (Error msg_bad_server_reply))
                | Some opts \<Rightarrow>
                    if \<not> data_ok d \<or> challengeId d = [] then
                      ([req1], Some (Error msg_bad_server_reply))
                    else
                      (case base64url_decode (challenge opts) of
                         Inl e \<Rightarrow> ([req1], Some e)
                       | Inr c \<Rightarrow>
                           (case map_or_throw base64url_decode (allowCredentials opts) of
                              Inl e \<Rightarrow> ([req1], Some e)
                            | Inr ids \<Rightarrow>
                                (let get = Credentials_get c ids
                                 in case ceremony_get w of
                                      Throws e \<Rightarrow> ([req1, get], Some e)
                                    | Cancelled \<Rightarrow>
                                        ([req1, get], Some (Error msg_auth_cancelled))
                                    | Credential cred \<Rightarrow>
                                        (case map_or_throw
                                                (base64url_encode (argument_limit w))
                                                ([rawId cred, clientDataJSON cred,
                                                  authenticatorData cred, signature cred] @
                                                 (case userHandle cred of
                                                    None \<Rightarrow> []
                                                  | Some h \<Rightarrow> [h])) of
                                           Inl e \<Rightarrow> ([req1, get], Some e)
                                         | Inr encoded \<Rightarrow>
                                             (let req2 = Request ''/auth/passkey/login''
                                                    (challengeId d # cred_id cred # encoded)
                                              in if \<not> login_res_ok w then
                                                   ([req1, get, req2],
                                                    Some (Error (error_or (login_res_error w)
                                                      msg_login_error msg_login_error)))
                                                 else
                                                   ([req1, get, req2,
                                                     Navigate_to ''account-profile''],
                                                    None)))))))))"

text \<open>The text that the \<^verbatim>\<open>catch\<close> block shows for an exception.\<close>

definition keyLogin_catch :: "js_error \<Rightarrow> string" where
  "keyLogin_catch err =
    (if name err = ''NotAllowedError'' then msg_cancelled_or_timeout
     else if name err = ''InvalidStateError'' then msg_key_not_found
     else if message err \<noteq> [] then cross_mark @ message err
     else msg_login_failed)"

definition keyLogin_onclick :: "login_world \<Rightarrow> action list" where
  "keyLogin_onclick w =
    (if \<not> has_PublicKeyCredential w then [Alert msg_browser_unsupported]
     else
       (case keyLogin_try w of
          (acts, None) \<Rightarrow> acts
        | (acts, Some err) \<Rightarrow> acts @ [Alert (keyLogin_catch err)]))"

subsection \<open>Registration of a passkey\<close>

text \<open>
  The body of \<^verbatim>\<open>registerPasskey\<close> after the capability test; the test itself is the
  first statement of the \<^verbatim>\<open>try\<close> block and is part of \<open>registerPasskey\<close> below.
\<close>

definition registerPasskey_try :: "register_world \<Rightarrow> action list \<times> js_error option" where
  "registerPasskey_try w =
    (let req1 = Request ''/auth/passkey/register/options'' []
     in if \<not> r1_ok w \<or> \<not> d1_ok w then
          ([req1, ShowMsg ''error'' msg_no_register_options], None)
        else
          (case d1_options w of
             None \<Rightarrow> ([req1], Some type_error)
           | Some opts \<Rightarrow>
               (case base64url_decode (reg_challenge opts) of
                  Inl e \<Rightarrow> ([req1], Some e)
                | Inr c \<Rightarrow>
                    (case base64url_decode (user_id opts) of
                       Inl e \<Rightarrow> ([req1], Some e)
                     | Inr u \<Rightarrow>
                         (case map_or_throw base64url_decode (excludeCredentials opts) of
                            Inl e \<Rightarrow> ([req1], Some e)
                          | Inr ids \<Rightarrow>
                              (let create = Credentials_create c u ids
                               in case ceremony_create w of
                                    Throws e \<Rightarrow> ([req1, create], Some e)
                                  | Cancelled \<Rightarrow>
                                      ([req1, create,
                                        ShowMsg ''error'' msg_register_cancelled], None)
                                  | Credential cred \<Rightarrow>
                                      (case map_or_throw
                                              (base64url_encode (argument_limit w))
                                              [att_rawId cred, att_clientDataJSON cred,
                                               attestationObject cred] of
                                         Inl e \<Rightarrow> ([req1, create], Some e)
                                       | Inr encoded \<Rightarrow>
                                           (let key_name =
                                                  (case prompt_answer w of
                                                     None \<Rightarrow> fallback_key_name
                                                   | Some a \<Rightarrow>
                                                       if a = [] then fallback_key_name
                                                       else a);
                                                asked = Prompt prompt_text default_key_name;
                                                req2 = Request ''/auth/passkey/register''
                                                  (att_id cred # encoded @ [key_name])
                                            in if r2_ok w \<and> d2_ok w then
                                                 ([req1, create, asked, req2,
                                                   ShowMsg ''ok'' msg_key_added,
                                                   Load_passkeys], None)
                                               else
                                                 ([req1, create, asked, req2,
                                                   ShowMsg ''error''
                                                     (msg_save_failed @
                                                      error_or (d2_error w)
                                                        ''unknown'' ''unknown'')],
                                                  None)))))))))"

definition registerPasskey_catch :: "js_error \<Rightarrow> action" where
  "registerPasskey_catch err =
    (if name err = ''NotAllowedError'' then ShowMsg ''warn'' msg_register_cancelled
     else ShowMsg ''error''
       (msg_error_prefix @ (if message err \<noteq> [] then message err else ''unknown'')))"

definition registerPasskey :: "register_world \<Rightarrow> action list" where
  "registerPasskey w =
    (if \<not> has_PublicKeyCredential w then [ShowMsg ''error'' msg_unsupported]
     else
       (case registerPasskey_try w of
          (acts, None) \<Rightarrow> acts
        | (acts, Some err) \<Rightarrow> acts @ [registerPasskey_catch err]))"

section \<open>Properties of the router\<close>

subsection \<open>Slash stripping\<close>

lemma strip_leading_slashes_run [simp]:
  "strip_leading_slashes (slashes m @ s) = strip_leading_slashes s"
  by (induction m) (simp_all add: strip_leading_slashes_def)

lemma strip_trailing_slashes_run [simp]:
  "strip_trailing_slashes (s @ slashes n) = strip_trailing_slashes s"
proof -
  have "dropWhile (\<lambda>c. c = CHR ''/'') (slashes n @ t) = dropWhile (\<lambda>c. c = CHR ''/'') t" for t
    by (induction n) simp_all
  then show ?thesis
    by (simp add: strip_trailing_slashes_def)
qed

lemma strip_leading_slashes_only [simp]: "strip_leading_slashes (slashes m) = []"
  using strip_leading_slashes_run [of m "[]"] by (simp add: strip_leading_slashes_def)

lemma strip_trailing_slashes_only [simp]: "strip_trailing_slashes (slashes m) = []"
  using strip_trailing_slashes_run [of "[]" m] by (simp add: strip_trailing_slashes_def)

lemma strip_leading_slashes_append:
  "strip_leading_slashes (s @ t) =
     (if \<forall>c \<in> set s. c = CHR ''/'' then strip_leading_slashes t
      else strip_leading_slashes s @ t)"
  by (simp add: strip_leading_slashes_def dropWhile_append)

lemma strip_trailing_slashes_all:
  "\<forall>c \<in> set s. c = CHR ''/'' \<Longrightarrow> strip_trailing_slashes s = []"
  by (simp add: strip_trailing_slashes_def)

lemma strip_leading_slashes_all:
  "\<forall>c \<in> set s. c = CHR ''/'' \<Longrightarrow> strip_leading_slashes s = []"
  by (simp add: strip_leading_slashes_def)

lemma route_path_slashes [simp]:
  "route_path (slashes m @ p @ slashes n) = route_path p"
proof (cases "\<forall>c \<in> set p. c = CHR ''/''")
  case True
  then show ?thesis
    by (simp add: route_path_def strip_leading_slashes_append strip_leading_slashes_all
        strip_trailing_slashes_all)
next
  case False
  then have "strip_leading_slashes (p @ slashes n) = strip_leading_slashes p @ slashes n"
    by (auto simp: strip_leading_slashes_append)
  then show ?thesis
    by (simp add: route_path_def)
qed

lemma route_path_segment:
  assumes "s \<noteq> []" "hd s \<noteq> CHR ''/''" "last s \<noteq> CHR ''/''"
  shows "route_path s = s"
proof -
  from assms have "strip_leading_slashes s = s"
    by (cases s) (simp_all add: strip_leading_slashes_def)
  moreover from assms have "strip_trailing_slashes s = s"
    by (cases s rule: rev_cases) (simp_all add: strip_trailing_slashes_def)
  ultimately show ?thesis
    by (simp add: route_path_def)
qed

lemma route_path_only_slashes [simp]: "route_path (slashes m) = []"
  by (simp add: route_path_def strip_trailing_slashes_def)

lemma no_slash_in_routes: "p \<in> set routes \<Longrightarrow> CHR ''/'' \<notin> set p"
  by (auto simp: routes_def)

lemma routes_nonempty: "p \<in> set routes \<Longrightarrow> p \<noteq> []"
  by (auto simp: routes_def)

subsection \<open>Route resolution\<close>

text \<open>
  Claim C7. Route resolution is invariant under leading and trailing slashes: for every
  path \<open>p\<close>, adding any number of slashes in front of it and behind it leaves the token
  that \<open>getRoute\<close> returns unchanged.
\<close>

theorem getRoute_slash_invariant:
  "getRoute (slashes m @ p @ slashes n) = getRoute p"
  by (simp add: getRoute_def)

lemma route_path_single:
  assumes "seg \<noteq> []" "CHR ''/'' \<notin> set seg"
  shows "route_path (slashes m @ seg @ slashes n) = seg"
proof -
  from assms have "hd seg \<noteq> CHR ''/''" "last seg \<noteq> CHR ''/''"
    by (metis hd_in_set, metis last_in_set)
  with assms(1) show ?thesis
    by (simp add: route_path_segment)
qed

lemma route_path_multi:
  assumes "a \<noteq> []" "CHR ''/'' \<notin> set a" "b \<noteq> []" "CHR ''/'' \<notin> set b"
  shows "route_path (slashes m @ (a @ ''/'' @ mid @ b) @ slashes n) = a @ ''/'' @ mid @ b"
proof -
  from assms have "hd a \<noteq> CHR ''/''" "last b \<noteq> CHR ''/''"
    by (metis hd_in_set, metis last_in_set)
  with assms(1,3) have "route_path (a @ ''/'' @ mid @ b) = a @ ''/'' @ mid @ b"
    by (intro route_path_segment) simp_all
  then show ?thesis
    by (simp only: route_path_slashes)
qed

text \<open>
  Claim C2. A path with exactly one non-empty segment \<open>seg\<close> (any number of slashes
  before and after it) resolves to \<open>seg\<close> itself when \<open>seg\<close> is in the allow-list, and
  otherwise to the token \<open>profile\<close>, with \<open>getRouteParam('username')\<close> returning \<open>seg\<close>.
  A path with at least two non-empty segments \<open>a\<close> and \<open>b\<close>, and a path with no segment
  at all (the empty path, or slashes only), resolve to the default token \<open>username\<close>.
\<close>

theorem getRoute_resolution:
  assumes "seg \<noteq> []" and "CHR ''/'' \<notin> set seg"
    and "a \<noteq> []" and "CHR ''/'' \<notin> set a"
    and "b \<noteq> []" and "CHR ''/'' \<notin> set b"
  shows "(seg \<in> set routes \<longrightarrow> getRoute (slashes m @ seg @ slashes n) = seg) \<and>
    (seg \<notin> set routes \<longrightarrow>
       getRoute (slashes m @ seg @ slashes n) = ''profile'' \<and>
       getRouteParam (slashes m @ seg @ slashes n) ''username'' = Some seg) \<and>
    getRoute (slashes m @ (a @ ''/'' @ mid @ b) @ slashes n) = ''username'' \<and>
    getRoute (slashes m) = ''username''"
proof -
  have single: "route_path (slashes m @ seg @ slashes n) = seg"
    using assms(1,2) by (rule route_path_single)
  have multi: "route_path (slashes m @ (a @ ''/'' @ mid @ b) @ slashes n) = a @ ''/'' @ mid @ b"
    using assms(3-6) by (rule route_path_multi)
  have "a @ ''/'' @ mid @ b \<notin> set routes"
    using no_slash_in_routes [of "a @ ''/'' @ mid @ b"] by auto
  then have "getRoute (slashes m @ (a @ ''/'' @ mid @ b) @ slashes n) = ''username''"
    unfolding getRoute_def multi by simp
  moreover have "getRoute (slashes m) = ''username''"
    using routes_nonempty [of "[]"] by (auto simp: getRoute_def)
  moreover have "seg \<in> set routes \<longrightarrow> getRoute (slashes m @ seg @ slashes n) = seg"
    unfolding getRoute_def single by simp
  moreover have "seg \<notin> set routes \<longrightarrow> getRoute (slashes m @ seg @ slashes n) = ''profile''"
    unfolding getRoute_def single using assms(1,2) by simp
  moreover have "getRouteParam (slashes m @ seg @ slashes n) ''username'' = Some seg"
    unfolding getRouteParam_def single using assms(1,2) by simp
  ultimately show ?thesis
    by blast
qed

text \<open>
  The examples of the specification: \<open>/signup\<close>, \<open>/alice\<close>, \<open>/a/b\<close> and the empty path.
\<close>

theorem getRoute_resolution_witness:
  "getRoute ''/signup'' = ''signup'' \<and>
   getRoute ''/alice'' = ''profile'' \<and>
   getRouteParam ''/alice'' ''username'' = Some ''alice'' \<and>
   getRoute ''/a/b'' = ''username'' \<and>
   getRoute [] = ''username''"
proof -
  have in_list: "''signup'' \<in> set routes" and not_in_list: "''alice'' \<notin> set routes"
    by (simp_all add: routes_def)
  have signup: "''signup'' \<noteq> []" "CHR ''/'' \<notin> set ''signup''"
    and alice: "''alice'' \<noteq> []" "CHR ''/'' \<notin> set ''alice''"
    and a: "''a'' \<noteq> []" "CHR ''/'' \<notin> set ''a''"
    and b: "''b'' \<noteq> []" "CHR ''/'' \<notin> set ''b''"
    by simp_all
  note r1 = getRoute_resolution [OF signup a b, where m=1 and n=0 and mid="[]"]
  note r2 = getRoute_resolution [OF alice a b, where m=1 and n=0 and mid="[]"]
  have "getRoute ''/signup'' = ''signup''"
    using r1 in_list by simp
  moreover have "getRoute ''/alice'' = ''profile''"
    and "getRouteParam ''/alice'' ''username'' = Some ''alice''"
    using r2 not_in_list by simp_all
  moreover have "getRoute ''/a/b'' = ''username''"
    using r1 by simp
  moreover have "getRoute [] = ''username''"
    using getRoute_resolution [OF alice a b, where m=0 and n=0 and mid="[]"] by simp
  ultimately show ?thesis
    by blast
qed

text \<open>
  Claim C10. For a path with exactly one non-empty segment, \<open>getRouteParam('username')\<close>
  returns the segment, whether or not the segment is a reserved route name; for every
  parameter name other than \<open>username\<close>, and for every path with no segment or with
  several segments, \<open>getRouteParam\<close> returns \<open>null\<close>.
\<close>

theorem getRouteParam_resolution:
  assumes "seg \<noteq> []" and "CHR ''/'' \<notin> set seg"
    and "a \<noteq> []" and "CHR ''/'' \<notin> set a"
    and "b \<noteq> []" and "CHR ''/'' \<notin> set b"
  shows "getRouteParam (slashes m @ seg @ slashes n) ''username'' = Some seg \<and>
    (paramName \<noteq> ''username'' \<longrightarrow> getRouteParam pathname paramName = None) \<and>
    getRouteParam (slashes m) paramName = None \<and>
    getRouteParam (slashes m @ (a @ ''/'' @ mid @ b) @ slashes n) paramName = None"
proof -
  have single: "route_path (slashes m @ seg @ slashes n) = seg"
    using assms(1,2) by (rule route_path_single)
  have multi: "route_path (slashes m @ (a @ ''/'' @ mid @ b) @ slashes n) = a @ ''/'' @ mid @ b"
    using assms(3-6) by (rule route_path_multi)
  have "getRouteParam (slashes m @ seg @ slashes n) ''username'' = Some seg"
    unfolding getRouteParam_def single using assms(1,2) by simp
  moreover have "paramName \<noteq> ''username'' \<longrightarrow> getRouteParam pathname paramName = None"
    by (simp add: getRouteParam_def)
  moreover have "getRouteParam (slashes m) paramName = None"
    by (simp add: getRouteParam_def)
  moreover have "getRouteParam (slashes m @ (a @ ''/'' @ mid @ b) @ slashes n) paramName = None"
    unfolding getRouteParam_def multi by simp
  ultimately show ?thesis
    by blast
qed

text \<open>
  At the reserved name \<open>signup\<close> the parameter is the segment although the route is
  \<open>signup\<close>, not \<open>profile\<close>.
\<close>

theorem getRouteParam_resolution_witness:
  "getRouteParam ''/signup'' ''username'' = Some ''signup'' \<and>
   getRouteParam ''/signup'' ''id'' = None \<and>
   getRouteParam ''/'' ''username'' = None \<and>
   getRouteParam ''/a/b'' ''username'' = None"
proof -
  have signup: "''signup'' \<noteq> []" "CHR ''/'' \<notin> set ''signup''"
    and a: "''a'' \<noteq> []" "CHR ''/'' \<notin> set ''a''"
    and b: "''b'' \<noteq> []" "CHR ''/'' \<notin> set ''b''"
    by simp_all
  note r1 = getRouteParam_resolution [OF signup a b, where m=1 and n=0 and mid="[]" and paramName="''id''" and pathname="''/signup''"]
  note r2 = getRouteParam_resolution [OF signup a b, where m=1 and n=0 and mid="[]" and paramName="''username''" and pathname="''/signup''"]
  have "getRouteParam ''/signup'' ''username'' = Some ''signup''"
    using r1 by simp
  moreover have "getRouteParam ''/signup'' ''id'' = None"
    using r1 by simp
  moreover have "getRouteParam ''/'' ''username'' = None"
    and "getRouteParam ''/a/b'' ''username'' = None"
    using r2 by simp_all
  ultimately show ?thesis
    by blast
qed

lemma getRoute_slash_free:
  assumes "p \<in> set routes"
  shows "getRoute (''/'' @ p) = p"
proof -
  from assms have "p \<noteq> []" "CHR ''/'' \<notin> set p"
    by (simp_all add: routes_nonempty no_slash_in_routes)
  then have "route_path (slashes 1 @ p @ slashes 0) = p"
    by (rule route_path_single)
  with assms show ?thesis
    by (simp add: getRoute_def)
qed

section \<open>Properties of the base64url conversions\<close>

subsection \<open>The alphabet\<close>

lemma alphabet_table:
  "list_all (\<lambda>n. char_sextet (sextet_char n) = n \<and> sextet_char n \<noteq> CHR ''='' \<and>
      sextet_char n \<noteq> CHR ''-'' \<and> sextet_char n \<noteq> CHR ''_'' \<and>
      \<not> ascii_whitespace (sextet_char n)) [0..<64]"
  by code_simp

lemma sextet_char_facts:
  assumes "n < 64"
  shows "char_sextet (sextet_char n) = n" "sextet_char n \<noteq> CHR ''=''"
    "sextet_char n \<noteq> CHR ''-''" "sextet_char n \<noteq> CHR ''_''"
    "\<not> ascii_whitespace (sextet_char n)"
  using alphabet_table assms by (simp_all add: list_all_iff)

lemma url_alphabet_table:
  "list_all (\<lambda>n.
      (let c = (if sextet_char n = CHR ''+'' then CHR ''-'' else sextet_char n)
       in if c = CHR ''/'' then CHR ''_'' else c) = base64url_alphabet ! n \<and>
      base64url_alphabet ! n \<noteq> CHR ''+'' \<and> base64url_alphabet ! n \<noteq> CHR ''/'' \<and>
      base64url_alphabet ! n \<noteq> CHR ''='') [0..<64]"
  by code_simp

lemma url_char_facts:
  assumes "n < 64"
  shows "(if (if sextet_char n = CHR ''+'' then CHR ''-'' else sextet_char n) = CHR ''/''
      then CHR ''_''
      else (if sextet_char n = CHR ''+'' then CHR ''-'' else sextet_char n)) =
      base64url_alphabet ! n"
    and "base64url_alphabet ! n \<noteq> CHR ''+''" "base64url_alphabet ! n \<noteq> CHR ''/''"
    and "base64url_alphabet ! n \<noteq> CHR ''=''"
  using url_alphabet_table assms by (simp_all add: list_all_iff Let_def)

subsection \<open>Arithmetic of the groups\<close>

lemma digits4: "(x::nat) * 262144 + y * 4096 + z * 64 + w = ((x * 64 + y) * 64 + z) * 64 + w"
  by simp

lemma digits3: "(x::nat) * 4096 + y * 64 + z = (x * 64 + y) * 64 + z"
  by simp

lemma bytes3: "(a::nat) * 65536 + b * 256 + c = (a * 256 + b) * 256 + c"
  by simp

lemma split_digit:
  fixes x y B :: nat
  assumes "y < B"
  shows "(x * B + y) div B = x" "(x * B + y) mod B = y"
  using assms by simp_all

lemma recompose4:
  fixes n :: nat
  shows "n div 262144 * 262144 + n div 4096 mod 64 * 4096 + n div 64 mod 64 * 64 + n mod 64 = n"
proof -
  have "n div 4096 = n div 64 div 64" "n div 262144 = n div 64 div 64 div 64"
    by (simp_all add: div_mult2_eq)
  then show ?thesis
    by (simp only: digits4 div_mult_mod_eq)
qed

lemma recompose3:
  fixes n :: nat
  shows "n div 4096 * 4096 + n div 64 mod 64 * 64 + n mod 64 = n"
proof -
  have "n div 4096 = n div 64 div 64"
    by (simp add: div_mult2_eq)
  then show ?thesis
    by (simp only: digits3 div_mult_mod_eq)
qed

lemma group3:
  fixes a b c :: nat
  assumes "a \<le> 255" "b \<le> 255" "c \<le> 255"
  defines "n \<equiv> a * 65536 + b * 256 + c"
  shows "n div 65536 = a" "n div 256 mod 256 = b" "n mod 256 = c" "n div 262144 < 64"
proof -
  have n: "n = (a * 256 + b) * 256 + c"
    unfolding n_def by (rule bytes3)
  from assms(2,3) have lt: "b < 256" "c < 256"
    by simp_all
  show "n mod 256 = c" "n div 256 mod 256 = b"
    unfolding n by (simp_all only: split_digit [OF lt(2)] split_digit [OF lt(1)])
  have "n div 65536 = n div 256 div 256"
    by (simp add: div_mult2_eq)
  then show "n div 65536 = a"
    unfolding n by (simp only: split_digit [OF lt(2)] split_digit [OF lt(1)])
  have "n < 64 * 262144"
    unfolding n_def using assms(1-3) by linarith
  then show "n div 262144 < 64"
    by (simp only: less_mult_imp_div_less)
qed

lemma group2:
  fixes a b :: nat
  assumes "a \<le> 255" "b \<le> 255"
  defines "n \<equiv> (a * 256 + b) * 4"
  shows "n div 1024 = a" "n div 4 mod 256 = b" "n div 4096 < 64"
proof -
  from assms(2) have lt: "b < 256"
    by simp
  have "n div 4 = a * 256 + b"
    unfolding n_def by simp
  moreover have "n div 1024 = n div 4 div 256"
    by (simp add: div_mult2_eq)
  ultimately show "n div 1024 = a" "n div 4 mod 256 = b"
    by (simp_all only: split_digit [OF lt])
  have "n < 64 * 4096"
    unfolding n_def using assms(1-2) by simp
  then show "n div 4096 < 64"
    by (simp only: less_mult_imp_div_less)
qed

lemma group1:
  fixes a :: nat
  assumes "a \<le> 255"
  defines "n \<equiv> a * 16"
  shows "(n div 64 * 64 + n mod 64) div 16 = a" "n div 64 < 64"
proof -
  show "(n div 64 * 64 + n mod 64) div 16 = a"
    unfolding n_def by (simp only: div_mult_mod_eq)
  have "n < 64 * 64"
    unfolding n_def using assms(1) by linarith
  then show "n div 64 < 64"
    by (simp only: less_mult_imp_div_less)
qed

subsection \<open>Digits of a group\<close>

lemma replicate_two: "replicate 2 x = [x, x]"
  by (simp add: numeral_2_eq_2)

lemma btoa_groups_sextets:
  "btoa_groups xs = map sextet_char (sextets xs) @ replicate (padding xs) (CHR ''='')"
  by (induction xs rule: sextets.induct) (simp_all add: Let_def replicate_two)

lemma length_sextets:
  "(length (sextets xs) + padding xs) mod 4 = 0 \<and> padding xs \<le> 2 \<and>
   length (sextets xs) mod 4 \<noteq> 1"
  by (induction xs rule: sextets.induct) (simp_all add: Let_def)

lemma sextets_bound:
  "list_all (\<lambda>c. c \<le> 255) xs \<Longrightarrow> list_all (\<lambda>n. n < 64) (sextets xs)"
proof (induction xs rule: sextets.induct)
  case 1
  show ?case
    by simp
next
  case (2 a)
  then have "a \<le> 255"
    by simp
  define n where "n = a * 16"
  have "sextets [a] = [n div 64, n mod 64]"
    by (simp add: Let_def n_def)
  moreover have "n div 64 < 64"
    unfolding n_def using \<open>a \<le> 255\<close> by (rule group1)
  ultimately show ?case
    by simp
next
  case (3 a b)
  then have ab: "a \<le> 255" "b \<le> 255"
    by simp_all
  define n where "n = (a * 256 + b) * 4"
  have "sextets [a, b] = [n div 4096, n div 64 mod 64, n mod 64]"
    by (simp add: Let_def n_def)
  moreover have "n div 4096 < 64"
    unfolding n_def using ab by (rule group2)
  ultimately show ?case
    by simp
next
  case (4 a b c rest)
  then have abc: "a \<le> 255" "b \<le> 255" "c \<le> 255"
    and rest: "list_all (\<lambda>n. n < 64) (sextets rest)"
    by simp_all
  define n where "n = a * 65536 + b * 256 + c"
  have "sextets (a # b # c # rest) =
      [n div 262144, n div 4096 mod 64, n div 64 mod 64, n mod 64] @ sextets rest"
    by (simp add: Let_def n_def)
  moreover have "n div 262144 < 64"
    unfolding n_def using abc by (rule group3)
  ultimately show ?case
    using rest by simp
qed

lemma atob_groups_sextets:
  "list_all (\<lambda>c. c \<le> 255) xs \<Longrightarrow> atob_groups (sextets xs) = xs"
proof (induction xs rule: sextets.induct)
  case 1
  show ?case
    by simp
next
  case (2 a)
  then have a: "a \<le> 255"
    by simp
  define n where "n = a * 16"
  have "atob_groups (sextets [a]) = [(n div 64 * 64 + n mod 64) div 16]"
    by (simp add: Let_def n_def)
  then show ?case
    unfolding n_def by (simp only: group1 [OF a])
next
  case (3 a b)
  then have ab: "a \<le> 255" "b \<le> 255"
    by simp_all
  define n where "n = (a * 256 + b) * 4"
  define m where "m = n div 4096 * 4096 + n div 64 mod 64 * 64 + n mod 64"
  have "atob_groups (sextets [a, b]) = [m div 1024, m div 4 mod 256]"
    by (simp add: Let_def m_def n_def)
  moreover have "m = n"
    unfolding m_def by (rule recompose3)
  ultimately show ?case
    unfolding n_def by (simp only: group2 [OF ab])
next
  case (4 a b c rest)
  then have abc: "a \<le> 255" "b \<le> 255" "c \<le> 255"
    and rest: "atob_groups (sextets rest) = rest"
    by simp_all
  define n where "n = a * 65536 + b * 256 + c"
  define m where
    "m = n div 262144 * 262144 + n div 4096 mod 64 * 4096 + n div 64 mod 64 * 64 + n mod 64"
  have "atob_groups (sextets (a # b # c # rest)) =
      [m div 65536, m div 256 mod 256, m mod 256] @ atob_groups (sextets rest)"
    by (simp add: Let_def m_def n_def)
  moreover have "m = n"
    unfolding m_def by (rule recompose4)
  ultimately show ?case
    unfolding n_def by (simp only: group3 [OF abc] rest append_Cons append_Nil)
qed

subsection \<open>Text made of alphabet characters\<close>

lemma digits_text:
  assumes "list_all (\<lambda>n. n < 64) ss"
  defines "t \<equiv> map sextet_char ss"
  shows "CHR ''='' \<notin> set t" "CHR ''-'' \<notin> set t" "CHR ''_'' \<notin> set t"
    "filter (\<lambda>c. \<not> ascii_whitespace c) t = t"
    "map char_sextet t = ss" "list_all (\<lambda>c. char_sextet c < 64) t"
proof -
  have lt: "n < 64" if "n \<in> set ss" for n
    using assms(1) that by (simp add: list_all_iff)
  have "\<forall>c \<in> set t. c \<noteq> CHR ''='' \<and> c \<noteq> CHR ''-'' \<and> c \<noteq> CHR ''_''"
    unfolding t_def using lt sextet_char_facts(2-4) by simp
  then show "CHR ''='' \<notin> set t" "CHR ''-'' \<notin> set t" "CHR ''_'' \<notin> set t"
    by blast+
  show "filter (\<lambda>c. \<not> ascii_whitespace c) t = t"
    unfolding t_def using lt sextet_char_facts(5) by (simp add: filter_id_conv)
  show "map char_sextet t = ss"
    unfolding t_def using lt sextet_char_facts(1) by (simp add: map_idI)
  show "list_all (\<lambda>c. char_sextet c < 64) t"
    unfolding t_def using lt sextet_char_facts(1) by (simp add: list_all_iff)
qed

lemma url_substitution_inverse:
  assumes "CHR ''-'' \<notin> set s" "CHR ''_'' \<notin> set s"
  shows "replace_char (CHR ''_'') (CHR ''/'') (replace_char (CHR ''-'') (CHR ''+'')
    (replace_char (CHR ''/'') (CHR ''_'') (replace_char (CHR ''+'') (CHR ''-'') s))) = s"
  using assms by (induction s) (auto simp: replace_char_def)

lemma url_substitution_idle:
  assumes "CHR ''-'' \<notin> set s" "CHR ''_'' \<notin> set s"
  shows "replace_char (CHR ''_'') (CHR ''/'') (replace_char (CHR ''-'') (CHR ''+'') s) = s"
  using assms by (induction s) (auto simp: replace_char_def)

lemma remove_padding_after_substitution:
  assumes "CHR ''='' \<notin> set s"
  shows "remove_char (CHR ''='') (replace_char (CHR ''/'') (CHR ''_'')
      (replace_char (CHR ''+'') (CHR ''-'') (s @ replicate k (CHR ''='')))) =
    replace_char (CHR ''/'') (CHR ''_'') (replace_char (CHR ''+'') (CHR ''-'') s)"
  using assms by (induction s) (auto simp: replace_char_def remove_char_def)

lemma strip_padding_none:
  assumes "CHR ''='' \<notin> set s"
  shows "strip_padding s = s"
proof -
  have "s \<noteq> [] \<Longrightarrow> last s \<noteq> CHR ''=''"
    using assms last_in_set [of s] by metis
  then show ?thesis
    by (auto simp: strip_padding_def)
qed

lemma strip_padding_pad:
  assumes "CHR ''='' \<notin> set s" "k \<le> 2" "(length s + k) mod 4 = 0"
  shows "strip_padding (s @ replicate k (CHR ''='')) = s"
proof -
  have last_s: "s \<noteq> [] \<Longrightarrow> last s \<noteq> CHR ''=''"
    using assms(1) last_in_set [of s] by metis
  from assms(2) consider "k = 0" | "k = 1" | "k = 2"
    by linarith
  then show ?thesis
  proof cases
    case 1
    then show ?thesis
      using assms(1) by (simp add: strip_padding_none)
  next
    case 2
    then show ?thesis
      using assms(3) last_s by (auto simp: strip_padding_def Let_def)
  next
    case 3
    then have "s @ replicate k (CHR ''='') = (s @ ''='') @ ''=''"
      by (simp add: replicate_two)
    then show ?thesis
      using assms(3) 3 last_s by (simp add: strip_padding_def Let_def butlast_append)
  qed
qed

subsection \<open>Decoding the text of a buffer\<close>

lemma atob_digits:
  assumes "list_all (\<lambda>c. c \<le> 255) xs" "k = 0 \<or> k = padding xs"
  shows "atob (map sextet_char (sextets xs) @ replicate k (CHR ''='')) = Inr xs"
proof -
  define t where "t = map sextet_char (sextets xs)"
  have ss: "list_all (\<lambda>n. n < 64) (sextets xs)"
    using assms(1) by (rule sextets_bound)
  note t = digits_text [OF ss, folded t_def]
  have len: "length t = length (sextets xs)"
    by (simp add: t_def)
  have "filter (\<lambda>c. \<not> ascii_whitespace c) (t @ replicate k (CHR ''='')) =
      t @ replicate k (CHR ''='')"
    using t(4) by (simp add: ascii_whitespace_def)
  moreover have "strip_padding (t @ replicate k (CHR ''='')) = t"
  proof (cases "k = 0")
    case True
    then show ?thesis
      using t(1) by (simp add: strip_padding_none)
  next
    case False
    with assms(2) have "k = padding xs"
      by simp
    then show ?thesis
      using t(1) length_sextets [of xs] len by (intro strip_padding_pad) simp_all
  qed
  ultimately have "atob (t @ replicate k (CHR ''='')) = Inr (atob_groups (sextets xs))"
    using t(5,6) length_sextets [of xs] len by (simp add: atob_def Let_def)
  then show ?thesis
    using assms(1) by (simp add: t_def atob_groups_sextets)
qed

lemma bytes_are_code_units: "list_all (\<lambda>c. c \<le> 255) (map unat (buf :: byte list))"
proof -
  have "unat b \<le> 255" for b :: byte
    using unsigned_less [of b, where ?'a = nat] by simp
  then show ?thesis
    by (simp add: list_all_iff)
qed

lemma Uint8Array_from_code_units: "Uint8Array_from (map unat buf) = buf"
  by (simp add: Uint8Array_from_def map_idI)

lemma url_substitution_digits:
  assumes "list_all (\<lambda>n. n < 64) ss"
  shows "replace_char (CHR ''/'') (CHR ''_'') (replace_char (CHR ''+'') (CHR ''-'')
      (map sextet_char ss)) = map (\<lambda>n. base64url_alphabet ! n) ss"
  using assms by (induction ss) (simp_all add: replace_char_def url_char_facts(1))

lemma base64url_text_chars:
  "CHR ''+'' \<notin> set (base64url_text buf)" "CHR ''/'' \<notin> set (base64url_text buf)"
  "CHR ''='' \<notin> set (base64url_text buf)"
proof -
  have "n < 64" if "n \<in> set (sextets (map unat buf))" for n
    using sextets_bound [OF bytes_are_code_units, of buf] that by (simp add: list_all_iff)
  then have "\<forall>c \<in> set (base64url_text buf).
      c \<noteq> CHR ''+'' \<and> c \<noteq> CHR ''/'' \<and> c \<noteq> CHR ''=''"
    unfolding base64url_text_def using url_char_facts(2-4) by simp
  then show "CHR ''+'' \<notin> set (base64url_text buf)" "CHR ''/'' \<notin> set (base64url_text buf)"
    "CHR ''='' \<notin> set (base64url_text buf)"
    by blast+
qed

lemma replace_char_append:
  "replace_char x y (s @ t) = replace_char x y s @ replace_char x y t"
  by (simp add: replace_char_def)

lemma replace_char_padding:
  "x \<noteq> CHR ''='' \<Longrightarrow> replace_char x y (replicate k (CHR ''='')) = replicate k (CHR ''='')"
  by (simp add: replace_char_def)

text \<open>Beyond the limit of the engine the encoding throws.\<close>

lemma base64url_encode_over_limit:
  assumes "limit < length buf"
  shows "base64url_encode limit buf = Inl range_error"
  using assms by (simp add: base64url_encode_def fromCharCode_def)

text \<open>
  Claim C1, as the code has it. For every byte buffer that has no more bytes than the
  engine accepts arguments in a call, the encoding is the base64url text of the buffer:
  its base64 digits with \<open>-\<close> for \<open>+\<close> and \<open>_\<close> for \<open>/\<close> and without \<open>=\<close> padding.
  Decoding this text yields the buffer again, and so does decoding the text with its
  padding appended, and decoding the standard, padded base64 text of the buffer.
\<close>

theorem base64url_roundtrip:
  assumes "length buf \<le> limit"
  shows "base64url_encode limit buf = Inr (base64url_text buf) \<and>
    CHR ''+'' \<notin> set (base64url_text buf) \<and>
    CHR ''/'' \<notin> set (base64url_text buf) \<and>
    CHR ''='' \<notin> set (base64url_text buf) \<and>
    base64url_decode (base64url_text buf) = Inr buf \<and>
    base64url_decode (base64url_text buf @ replicate (padding (map unat buf)) (CHR ''='')) =
      Inr buf \<and>
    btoa (map unat buf) = Inr (btoa_groups (map unat buf)) \<and>
    base64url_decode (btoa_groups (map unat buf)) = Inr buf"
proof -
  define xs where "xs = map unat buf"
  define t where "t = map sextet_char (sextets xs)"
  define pad where "pad = replicate (padding xs) (CHR ''='')"
  have xs: "list_all (\<lambda>c. c \<le> 255) xs"
    unfolding xs_def by (rule bytes_are_code_units)
  note ss = sextets_bound [OF xs]
  note t = digits_text [OF ss, folded t_def]
  have url: "replace_char (CHR ''/'') (CHR ''_'') (replace_char (CHR ''+'') (CHR ''-'') t) =
      base64url_text buf"
    unfolding t_def base64url_text_def xs_def [symmetric] using ss
    by (rule url_substitution_digits)
  have from_char: "fromCharCode limit buf = Inr xs"
    using assms by (simp add: fromCharCode_def xs_def)
  have btoa: "btoa xs = Inr (t @ pad)" and groups: "btoa_groups xs = t @ pad"
    using xs by (simp_all add: btoa_def btoa_groups_sextets t_def pad_def)
  have plain: "atob t = Inr xs"
    using atob_digits [OF xs, of 0] by (simp add: t_def)
  have padded: "atob (t @ pad) = Inr xs"
    using atob_digits [OF xs, of "padding xs"] by (simp add: t_def pad_def)
  have undone: "replace_char (CHR ''_'') (CHR ''/'') (replace_char (CHR ''-'') (CHR ''+'')
      (base64url_text buf)) = t"
    unfolding url [symmetric] using t(2,3) by (rule url_substitution_inverse)
  have pad_idle: "replace_char (CHR ''_'') (CHR ''/'') (replace_char (CHR ''-'') (CHR ''+'') pad) =
      pad"
    by (simp add: pad_def replace_char_padding)
  have "base64url_encode limit buf = Inr (base64url_text buf)"
    using from_char btoa t(1) url
    by (simp add: base64url_encode_def pad_def remove_padding_after_substitution)
  moreover have "base64url_decode (base64url_text buf) = Inr buf"
    using undone plain by (simp add: base64url_decode_def xs_def Uint8Array_from_code_units)
  moreover have "base64url_decode (base64url_text buf @ pad) = Inr buf"
    using undone pad_idle padded
    by (simp add: base64url_decode_def replace_char_append xs_def Uint8Array_from_code_units)
  moreover have "base64url_decode (t @ pad) = Inr buf"
  proof -
    have "CHR ''-'' \<notin> set (t @ pad)" and "CHR ''_'' \<notin> set (t @ pad)"
      using t(2,3) by (auto simp: pad_def)
    then have "replace_char (CHR ''_'') (CHR ''/'') (replace_char (CHR ''-'') (CHR ''+'')
        (t @ pad)) = t @ pad"
      by (rule url_substitution_idle)
    then show ?thesis
      using padded by (simp add: base64url_decode_def xs_def Uint8Array_from_code_units)
  qed
  ultimately show ?thesis
    using btoa groups base64url_text_chars [of buf]
    by (simp add: xs_def [symmetric] pad_def)
qed

text \<open>
  Three bytes whose digits are 62, 63, 62 and 63: the standard text would be \<open>+/+/\<close>.
\<close>

theorem base64url_roundtrip_witness:
  "base64url_encode 65536 [251, 255, 191] = Inr ''-_-_'' \<and>
   base64url_decode ''-_-_'' = Inr [251, 255, 191]"
proof -
  have "length [251, 255, 191 :: byte] \<le> 65536"
    by simp
  note roundtrip = base64url_roundtrip [OF this]
  have "base64url_text [251, 255, 191] = ''-_-_''"
    by (simp add: base64url_text_def base64url_alphabet_def Let_def)
  with roundtrip show ?thesis
    by simp
qed

text \<open>
  For every byte buffer, the claim fails: on an engine that accepts 65536 arguments, the
  encoding of a buffer of 200000 bytes throws \<open>RangeError\<close> and gives no text to decode.
\<close>

theorem base64url_roundtrip_counterexample:
  "base64url_encode 65536 (replicate 200000 0) = Inl range_error"
  by (simp add: base64url_encode_def fromCharCode_def)

section \<open>Properties of the HTTP client wrapper\<close>

lemma startsWith_iff: "startsWith s p \<longleftrightarrow> (\<exists>post. s = p @ post)"
proof
  assume "startsWith s p"
  then have "s = p @ drop (length p) s"
    by (metis append_take_drop_id startsWith_def)
  then show "\<exists>post. s = p @ post" ..
next
  assume "\<exists>post. s = p @ post"
  then show "startsWith s p"
    by (auto simp: startsWith_def)
qed

text \<open>\<open>includes_str\<close> is the search for a substring.\<close>

lemma includes_str_iff: "includes_str s x \<longleftrightarrow> (\<exists>pre post. s = pre @ x @ post)"
proof (induction s)
  case Nil
  show ?case
    by auto
next
  case (Cons c s)
  show ?case
  proof
    assume "includes_str (c # s) x"
    then consider "startsWith (c # s) x" | "includes_str s x"
      by auto
    then show "\<exists>pre post. c # s = pre @ x @ post"
    proof cases
      case 1
      then obtain post where "c # s = [] @ x @ post"
        by (auto simp: startsWith_iff)
      then show ?thesis
        by blast
    next
      case 2
      with Cons.IH obtain pre post where "s = pre @ x @ post"
        by auto
      then have "c # s = (c # pre) @ x @ post"
        by simp
      then show ?thesis
        by blast
    qed
  next
    assume "\<exists>pre post. c # s = pre @ x @ post"
    then obtain pre post where eq: "c # s = pre @ x @ post"
      by auto
    show "includes_str (c # s) x"
    proof (cases pre)
      case Nil
      with eq have "startsWith (c # s) x"
        by (auto simp: startsWith_iff)
      then show ?thesis
        by simp
    next
      case (Cons d pre')
      with eq have "s = pre' @ x @ post"
        by simp
      with Cons.IH have "includes_str s x"
        by auto
      then show ?thesis
        by simp
    qed
  qed
qed

lemma messages_nonempty:
  "msg_offline \<noteq> []" "msg_timeout \<noteq> []" "msg_failed_to_fetch \<noteq> []"
  "msg_network_error \<noteq> []" "msg_unknown \<noteq> []"
  by (simp_all add: msg_offline_def msg_timeout_def msg_failed_to_fetch_def
      msg_network_error_def msg_unknown_def)

lemma error_response_shape:
  "ok (error_response e) = False \<and> status (error_response e) = 0 \<and>
   (\<exists>m. body (error_response e) = Error_object m \<and> m \<noteq> [])"
  by (simp add: error_response_def Let_def messages_nonempty)

lemma await_fetch_failure:
  assumes "b = Never \<or> (\<exists>t e. b = Rejects t e)"
  shows "\<exists>e t aborted. await_fetch timeoutMs b = (Inl e, t, aborted)"
  using assms by auto

text \<open>
  Claim C5. When the browser reports being offline, \<open>apiCall\<close> returns at once the
  synthetic failure response (\<open>ok\<close> false, status 0, a message in \<open>json()\<close>) and has no
  effect: no request is sent.
\<close>

theorem apiCall_offline:
  assumes "\<not> onLine env"
  shows "ok (returned (apiCall env endpoint opts timeoutArg)) = False \<and>
    status (returned (apiCall env endpoint opts timeoutArg)) = 0 \<and>
    body (returned (apiCall env endpoint opts timeoutArg)) = Error_object msg_offline \<and>
    effects (apiCall env endpoint opts timeoutArg) = [] \<and>
    elapsed (apiCall env endpoint opts timeoutArg) = 0"
  using assms by (simp add: apiCall_def offline_response_def Let_def)

theorem apiCall_offline_witness:
  "effects (apiCall \<lparr>onLine = False, network = Never\<rparr> ''/auth/me''
      \<lparr>http_method = Some ''GET'', credentials = Some ''include'', headers = [], payload = None\<rparr>
      None) = [] \<and>
   ok (returned (apiCall \<lparr>onLine = False, network = Never\<rparr> ''/auth/me''
      \<lparr>http_method = Some ''GET'', credentials = Some ''include'', headers = [], payload = None\<rparr>
      None)) = False"
  using apiCall_offline [of "\<lparr>onLine = False, network = Never\<rparr>" "''/auth/me''"
      "\<lparr>http_method = Some ''GET'', credentials = Some ''include'', headers = [], payload = None\<rparr>"
      None]
  by simp

text \<open>
  Claim C4. Whatever exception ends the request (the rejection of \<open>fetch\<close> with any
  exception object, at any time, or the abort of a request that stays pending), \<open>apiCall\<close>
  returns a response object with \<open>ok\<close> false and status 0 whose \<open>json()\<close> gives a
  non-empty error message. The result of \<open>apiCall\<close> is a response on every path: none
  of them ends in an exception.
\<close>

theorem apiCall_exception:
  assumes "network env = Never \<or> network env = Rejects t e"
  shows "ok (returned (apiCall env endpoint opts timeoutArg)) = False \<and>
    status (returned (apiCall env endpoint opts timeoutArg)) = 0 \<and>
    (\<exists>m. body (returned (apiCall env endpoint opts timeoutArg)) = Error_object m \<and> m \<noteq> [])"
proof (cases "onLine env")
  case False
  then show ?thesis
    by (simp add: apiCall_def offline_response_def Let_def messages_nonempty)
next
  case True
  from assms obtain e' t' aborted
    where "await_fetch (case timeoutArg of None \<Rightarrow> 10000 | Some t \<Rightarrow> t) (network env) =
      (Inl e', t', aborted)"
    using await_fetch_failure by blast
  with True have "returned (apiCall env endpoint opts timeoutArg) = error_response e'"
    by (simp add: apiCall_def Let_def)
  then show ?thesis
    using error_response_shape [of e'] by simp
qed

theorem apiCall_exception_witness:
  "body (returned (apiCall
      \<lparr>onLine = True, network = Rejects 20 \<lparr>name = ''TypeError'', message = ''Failed to fetch''\<rparr>\<rparr>
      ''/api/friends/list''
      \<lparr>http_method = None, credentials = Some ''include'', headers = [], payload = None\<rparr> None)) =
    Error_object msg_failed_to_fetch \<and>
   ok (returned (apiCall
      \<lparr>onLine = True, network = Rejects 20 \<lparr>name = ''TypeError'', message = ''Failed to fetch''\<rparr>\<rparr>
      ''/api/friends/list''
      \<lparr>http_method = None, credentials = Some ''include'', headers = [], payload = None\<rparr> None)) =
    False"
proof -
  have "network \<lparr>onLine = True,
        network = Rejects 20 \<lparr>name = ''TypeError'', message = ''Failed to fetch''\<rparr>\<rparr> = Never \<or>
      network \<lparr>onLine = True,
        network = Rejects 20 \<lparr>name = ''TypeError'', message = ''Failed to fetch''\<rparr>\<rparr> =
      Rejects 20 \<lparr>name = ''TypeError'', message = ''Failed to fetch''\<rparr>"
    by simp
  from apiCall_exception [OF this] show ?thesis
    by (simp add: apiCall_def Let_def build_request_def error_response_def startsWith_def)
qed

text \<open>
  Claim C6. When the browser is online and the promise of \<open>fetch\<close> stays pending for
  ever, \<open>apiCall\<close> aborts the request when the timeout has passed (10000 ms when the
  caller gives none) and returns then, with a synthetic response whose \<open>ok\<close> is false
  and whose status text is \<open>Request timeout\<close>.
\<close>

theorem apiCall_timeout:
  assumes "onLine env" and "network env = Never"
  shows "ok (returned (apiCall env endpoint opts timeoutArg)) = False \<and>
    statusText (returned (apiCall env endpoint opts timeoutArg)) = ''Request timeout'' \<and>
    body (returned (apiCall env endpoint opts timeoutArg)) = Error_object msg_timeout \<and>
    Abort \<in> set (effects (apiCall env endpoint opts timeoutArg)) \<and>
    elapsed (apiCall env endpoint opts timeoutArg) =
      (case timeoutArg of None \<Rightarrow> 10000 | Some t \<Rightarrow> t)"
  using assms
  by (simp add: apiCall_def Let_def error_response_def abort_error_def)

theorem apiCall_timeout_witness:
  "elapsed (apiCall \<lparr>onLine = True, network = Never\<rparr> ''/auth/sessions''
      \<lparr>http_method = None, credentials = Some ''include'', headers = [], payload = None\<rparr>
      None) = 10000 \<and>
   statusText (returned (apiCall \<lparr>onLine = True, network = Never\<rparr> ''/auth/sessions''
      \<lparr>http_method = None, credentials = Some ''include'', headers = [], payload = None\<rparr>
      None)) = ''Request timeout''"
proof -
  have "onLine \<lparr>onLine = True, network = Never\<rparr>"
    and "network \<lparr>onLine = True, network = Never\<rparr> = Never"
    by simp_all
  from apiCall_timeout [OF this] show ?thesis
    by simp
qed

lemma redirects_excluded:
  "redirects endpoint r \<longleftrightarrow>
    status r = 401 \<and> \<not> list_ex (includes_str endpoint) excluded_endpoints"
  by (simp add: redirects_def excluded_endpoints_def)

text \<open>
  Claim C3, as the code has it. When the browser is online and the request is answered
  before the timeout with status 401, \<open>apiCall\<close> navigates to the route \<open>username\<close>
  exactly when the endpoint string contains none of the five excluded strings as a
  substring; the navigation resolves to the login route \<open>username\<close>.
\<close>

theorem apiCall_401:
  assumes "onLine env" and "network env = Resolves t r"
    and "t < (case timeoutArg of None \<Rightarrow> 10000 | Some ms \<Rightarrow> ms)"
    and "status r = 401"
  shows "(Navigate ''username'' \<in> set (effects (apiCall env endpoint opts timeoutArg)) \<longleftrightarrow>
      \<not> list_ex (includes_str endpoint) excluded_endpoints) \<and>
    returned (apiCall env endpoint opts timeoutArg) = r \<and>
    snd (navigate ''username'') = ''username''"
proof -
  have "snd (navigate ''username'') = ''username''"
    using getRoute_slash_free [of "''username''"]
    by (simp add: navigate_def routes_def)
  moreover have "effects (apiCall env endpoint opts timeoutArg) =
      Fetch (build_request endpoint opts) #
        (if redirects endpoint r then [Navigate ''username''] else [])"
    and "returned (apiCall env endpoint opts timeoutArg) = r"
    using assms(1-3) by (simp_all add: apiCall_def Let_def)
  ultimately show ?thesis
    using assms(4) by (simp add: redirects_excluded)
qed

theorem apiCall_401_witness:
  "Navigate ''username'' \<in> set (effects (apiCall
      \<lparr>onLine = True, network = Resolves 120
        \<lparr>ok = False, status = 401, statusText = ''Unauthorized'', body = Server_body ''''\<rparr>\<rparr>
      ''/api/friends/list''
      \<lparr>http_method = None, credentials = Some ''include'', headers = [], payload = None\<rparr> None)) \<and>
   Navigate ''username'' \<notin> set (effects (apiCall
      \<lparr>onLine = True, network = Resolves 120
        \<lparr>ok = False, status = 401, statusText = ''Unauthorized'', body = Server_body ''''\<rparr>\<rparr>
      ''/auth/me''
      \<lparr>http_method = Some ''GET'', credentials = Some ''include'', headers = [], payload = None\<rparr>
      None))"
proof -
  define r where
    "r = \<lparr>ok = False, status = 401, statusText = ''Unauthorized'', body = Server_body ''''\<rparr>"
  define env where "env = \<lparr>onLine = True, network = Resolves 120 r\<rparr>"
  have env: "onLine env" "network env = Resolves 120 r"
    "(120::nat) < (case None of None \<Rightarrow> 10000 | Some ms \<Rightarrow> ms)" "status r = 401"
    by (simp_all add: env_def r_def)
  have "\<not> list_ex (includes_str ''/api/friends/list'') excluded_endpoints"
    and "list_ex (includes_str ''/auth/me'') excluded_endpoints"
    by (simp_all add: excluded_endpoints_def startsWith_def)
  then show ?thesis
    using apiCall_401 [OF env, of "''/api/friends/list''"] apiCall_401 [OF env, of "''/auth/me''"]
    unfolding env_def r_def by simp
qed

text \<open>
  Read with membership in the list of excluded endpoints, the claim fails. The endpoint
  \<open>/auth/trusted-devices/42\<close>, of the form that the device view requests, and the
  endpoint \<open>/auth/metrics\<close> are not elements of the list, and a 401 response to either
  triggers no navigation: the first contains \<open>/auth/trusted-devices\<close>, the second
  \<open>/auth/me\<close>.
\<close>

theorem apiCall_401_counterexample:
  "''/auth/trusted-devices/42'' \<notin> set excluded_endpoints \<and>
   Navigate ''username'' \<notin> set (effects (apiCall
      \<lparr>onLine = True, network = Resolves 120
        \<lparr>ok = False, status = 401, statusText = ''Unauthorized'', body = Server_body []\<rparr>\<rparr>
      ''/auth/trusted-devices/42''
      \<lparr>http_method = Some ''DELETE'', credentials = Some ''include'', headers = [],
       payload = None\<rparr>
      None)) \<and>
   ''/auth/metrics'' \<notin> set excluded_endpoints \<and>
   Navigate ''username'' \<notin> set (effects (apiCall
      \<lparr>onLine = True, network = Resolves 120
        \<lparr>ok = False, status = 401, statusText = ''Unauthorized'', body = Server_body []\<rparr>\<rparr>
      ''/auth/metrics''
      \<lparr>http_method = None, credentials = None, headers = [], payload = None\<rparr>
      None))"
  by (simp add: excluded_endpoints_def apiCall_def Let_def redirects_def startsWith_def)

section \<open>Properties of the error reporting\<close>

subsection \<open>The handlers, case by case\<close>

lemma onerror_known:
  assumes "errorKey ev \<in> set (errorCache s)"
  shows "onerror now ev s = s" "onunhandledrejection now ev s = s"
  using assms by (simp_all add: onerror_def onunhandledrejection_def)

lemma onerror_limited:
  assumes "errorKey ev \<notin> set (errorCache s)" "errorCount s + 1 > 10"
  shows "onerror now ev s =
      s\<lparr>errorCache := errorKey ev # errorCache s,
        errorCount := errorCount s + 1,
        timers := timers s @ [(now + 60000, Delete_key (errorKey ev))]\<rparr>"
    and "onunhandledrejection now ev s =
      s\<lparr>errorCache := errorKey ev # errorCache s,
        errorCount := errorCount s + 1,
        timers := timers s @ [(now + 60000, Delete_key (errorKey ev))]\<rparr>"
  using assms
  by (simp_all add: onerror_def onunhandledrejection_def setTimeout_def Let_def
      MAX_ERRORS_PER_MINUTE_def)

lemma onerror_forwarded:
  assumes "errorKey ev \<notin> set (errorCache s)" "\<not> errorCount s + 1 > 10"
  shows "onerror now ev s =
      s\<lparr>errorCache := errorKey ev # errorCache s,
        errorCount := errorCount s + 1,
        timers := timers s @
          [(now + 60000, Delete_key (errorKey ev)), (now + 60000, Decrement_count)],
        forwarded := forwarded s @ [(now, ev)]\<rparr>"
    and "onunhandledrejection now ev s =
      s\<lparr>errorCache := errorKey ev # errorCache s,
        errorCount := errorCount s + 1,
        timers := timers s @ [(now + 60000, Delete_key (errorKey ev))],
        forwarded := forwarded s @ [(now, ev)]\<rparr>"
  using assms
  by (simp_all add: onerror_def onunhandledrejection_def setTimeout_def Let_def
      MAX_ERRORS_PER_MINUTE_def)

subsection \<open>Timers of a queue\<close>

lemma delete_dues_simps [simp]:
  "delete_dues k [] = []"
  "delete_dues k (ts @ us) = delete_dues k ts @ delete_dues k us"
  "delete_dues k ((d, Delete_key k') # ts) = (if k' = k then d # delete_dues k ts else delete_dues k ts)"
  "delete_dues k ((d, Decrement_count) # ts) = delete_dues k ts"
  by (simp_all add: delete_dues_def)

lemma decrement_dues_simps [simp]:
  "decrement_dues [] = []"
  "decrement_dues (ts @ us) = decrement_dues ts @ decrement_dues us"
  "decrement_dues ((d, Delete_key k) # ts) = decrement_dues ts"
  "decrement_dues ((d, Decrement_count) # ts) = d # decrement_dues ts"
  by (simp_all add: decrement_dues_def)

lemma spaced_snoc:
  "spaced (log @ [x]) \<longleftrightarrow>
    spaced log \<and> (\<forall>r \<in> set log. errorKey (snd r) = errorKey (snd x) \<longrightarrow> fst r + 60000 \<le> fst x)"
  by (induction log) auto

lemma spaced_nth:
  assumes "spaced log" "i < j" "j < length log"
    "errorKey (snd (log ! i)) = errorKey (snd (log ! j))"
  shows "fst (log ! i) + 60000 \<le> fst (log ! j)"
  using assms
proof (induction log arbitrary: i j)
  case Nil
  then show ?case
    by simp
next
  case (Cons r rs)
  show ?case
  proof (cases i)
    case 0
    with Cons.prems obtain j' where j': "j = Suc j'" "j' < length rs"
      by (cases j) simp_all
    then have "rs ! j' \<in> set rs"
      by simp
    with Cons.prems(1,4) 0 j' show ?thesis
      by simp
  next
    case (Suc i')
    with Cons.prems obtain j' where "j = Suc j'" "i' < j'" "j' < length rs"
      by (cases j) simp_all
    with Cons.IH [of i' j'] Cons.prems(1,4) Suc show ?thesis
      by simp
  qed
qed

lemma same_error_key: "same_error e e' \<Longrightarrow> errorKey e = errorKey e'"
  by (induction e e' rule: same_error.induct) simp_all

subsection \<open>The cache and its timers\<close>

lemma cache_ok_in:
  assumes "cache_ok now cache ts log" "k \<in> set cache"
  shows "\<exists>due. delete_dues k ts = [due] \<and>
    (\<forall>r \<in> set log. errorKey (snd r) = k \<longrightarrow> fst r + 60000 \<le> due)"
  using assms unfolding cache_ok_def by metis

lemma cache_ok_out:
  assumes "cache_ok now cache ts log" "k \<notin> set cache"
  shows "delete_dues k ts = []"
    and "\<And>r. r \<in> set log \<Longrightarrow> errorKey (snd r) = k \<Longrightarrow> fst r + 60000 \<le> now"
  using assms unfolding cache_ok_def by metis+

lemma cache_okI:
  assumes "\<And>k. k \<in> set cache \<Longrightarrow>
      \<exists>due. delete_dues k ts = [due] \<and>
        (\<forall>r \<in> set log. errorKey (snd r) = k \<longrightarrow> fst r + 60000 \<le> due)"
    and "\<And>k. k \<notin> set cache \<Longrightarrow>
      delete_dues k ts = [] \<and>
        (\<forall>r \<in> set log. errorKey (snd r) = k \<longrightarrow> fst r + 60000 \<le> now)"
  shows "cache_ok now cache ts log"
  unfolding cache_ok_def using assms by simp

lemma cache_ok_later:
  assumes "cache_ok now cache ts log" "now \<le> now'"
  shows "cache_ok now' cache ts log"
proof (rule cache_okI)
  fix k
  assume "k \<in> set cache"
  with assms(1) show "\<exists>due. delete_dues k ts = [due] \<and>
      (\<forall>r \<in> set log. errorKey (snd r) = k \<longrightarrow> fst r + 60000 \<le> due)"
    by (rule cache_ok_in)
next
  fix k
  assume "k \<notin> set cache"
  with assms(1) have "delete_dues k ts = []"
    and "\<And>r. r \<in> set log \<Longrightarrow> errorKey (snd r) = k \<Longrightarrow> fst r + 60000 \<le> now"
    by (rule cache_ok_out)+
  with assms(2) show "delete_dues k ts = [] \<and>
      (\<forall>r \<in> set log. errorKey (snd r) = k \<longrightarrow> fst r + 60000 \<le> now')"
    by fastforce
qed

lemma cache_ok_add:
  assumes ok: "cache_ok now cache ts log" and new: "k0 \<notin> set cache"
    and extra: "\<And>k. delete_dues k extra = []"
    and log': "set log' \<subseteq> insert (now, ev) (set log)" and ev: "errorKey ev = k0"
  shows "cache_ok now (k0 # cache) (ts @ (now + 60000, Delete_key k0) # extra) log'"
proof (rule cache_okI)
  fix k
  assume k: "k \<in> set (k0 # cache)"
  show "\<exists>due. delete_dues k (ts @ (now + 60000, Delete_key k0) # extra) = [due] \<and>
      (\<forall>r \<in> set log'. errorKey (snd r) = k \<longrightarrow> fst r + 60000 \<le> due)"
  proof (cases "k = k0")
    case True
    have "delete_dues k0 ts = []"
      and old: "\<And>r. r \<in> set log \<Longrightarrow> errorKey (snd r) = k0 \<Longrightarrow> fst r + 60000 \<le> now"
      using ok new by (rule cache_ok_out)+
    then have "delete_dues k (ts @ (now + 60000, Delete_key k0) # extra) = [now + 60000]"
      using True extra by simp
    moreover have "fst r + 60000 \<le> now + 60000" if "r \<in> set log'" "errorKey (snd r) = k" for r
    proof (cases "r = (now, ev)")
      case True
      then show ?thesis
        by simp
    next
      case False
      with that(1) log' have "r \<in> set log"
        by auto
      with old [of r] that(2) \<open>k = k0\<close> show ?thesis
        by simp
    qed
    ultimately show ?thesis
      by blast
  next
    case False
    with k have "k \<in> set cache"
      by simp
    with ok obtain due where due: "delete_dues k ts = [due]"
      and old: "\<And>r. r \<in> set log \<Longrightarrow> errorKey (snd r) = k \<Longrightarrow> fst r + 60000 \<le> due"
      using cache_ok_in by blast
    have "delete_dues k (ts @ (now + 60000, Delete_key k0) # extra) = [due]"
      using due False extra by simp
    moreover have "fst r + 60000 \<le> due" if "r \<in> set log'" "errorKey (snd r) = k" for r
    proof -
      from that(2) False ev have "r \<noteq> (now, ev)"
        by auto
      with that(1) log' have "r \<in> set log"
        by auto
      with old that(2) show ?thesis
        by simp
    qed
    ultimately show ?thesis
      by blast
  qed
next
  fix k
  assume k: "k \<notin> set (k0 # cache)"
  then have "k \<noteq> k0" and out: "k \<notin> set cache"
    by simp_all
  from ok out have "delete_dues k ts = []"
    and old: "\<And>r. r \<in> set log \<Longrightarrow> errorKey (snd r) = k \<Longrightarrow> fst r + 60000 \<le> now"
    by (rule cache_ok_out)+
  then have "delete_dues k (ts @ (now + 60000, Delete_key k0) # extra) = []"
    using \<open>k \<noteq> k0\<close> extra by simp
  moreover have "fst r + 60000 \<le> now" if "r \<in> set log'" "errorKey (snd r) = k" for r
  proof -
    from that(2) \<open>k \<noteq> k0\<close> ev have "r \<noteq> (now, ev)"
      by auto
    with that(1) log' have "r \<in> set log"
      by auto
    with old that(2) show ?thesis
      by simp
  qed
  ultimately show "delete_dues k (ts @ (now + 60000, Delete_key k0) # extra) = [] \<and>
      (\<forall>r \<in> set log'. errorKey (snd r) = k \<longrightarrow> fst r + 60000 \<le> now)"
    by blast
qed

lemma cache_ok_fire_delete:
  assumes ok: "cache_ok now cache ((due, Delete_key k1) # ts) log" and due: "due \<le> now"
  shows "cache_ok now (removeAll k1 cache) ts log"
proof -
  have k1: "k1 \<in> set cache"
  proof (rule ccontr)
    assume "k1 \<notin> set cache"
    with ok have "delete_dues k1 ((due, Delete_key k1) # ts) = []"
      by (rule cache_ok_out)
    then show False
      by simp
  qed
  with ok obtain d where d: "delete_dues k1 ((due, Delete_key k1) # ts) = [d]"
    and old1: "\<And>r. r \<in> set log \<Longrightarrow> errorKey (snd r) = k1 \<Longrightarrow> fst r + 60000 \<le> d"
    using cache_ok_in by blast
  from d have d': "d = due" "delete_dues k1 ts = []"
    by simp_all
  show ?thesis
  proof (rule cache_okI)
    fix k
    assume "k \<in> set (removeAll k1 cache)"
    then have k: "k \<noteq> k1" "k \<in> set cache"
      by simp_all
    with ok obtain d2 where "delete_dues k ((due, Delete_key k1) # ts) = [d2]"
      and "\<And>r. r \<in> set log \<Longrightarrow> errorKey (snd r) = k \<Longrightarrow> fst r + 60000 \<le> d2"
      using cache_ok_in by blast
    with k(1) show "\<exists>due. delete_dues k ts = [due] \<and>
        (\<forall>r \<in> set log. errorKey (snd r) = k \<longrightarrow> fst r + 60000 \<le> due)"
      by auto
  next
    fix k
    assume k: "k \<notin> set (removeAll k1 cache)"
    show "delete_dues k ts = [] \<and>
        (\<forall>r \<in> set log. errorKey (snd r) = k \<longrightarrow> fst r + 60000 \<le> now)"
    proof (cases "k = k1")
      case True
      with d' old1 due show ?thesis
        by fastforce
    next
      case False
      with k have "k \<notin> set cache"
        by simp
      with ok have "delete_dues k ((due, Delete_key k1) # ts) = []"
        and "\<And>r. r \<in> set log \<Longrightarrow> errorKey (snd r) = k \<Longrightarrow> fst r + 60000 \<le> now"
        by (rule cache_ok_out)+
      with False show ?thesis
        by auto
    qed
  qed
qed

lemma cache_ok_fire_decrement:
  assumes "cache_ok now cache ((due, Decrement_count) # ts) log"
  shows "cache_ok now cache ts log"
proof (rule cache_okI)
  fix k
  assume "k \<in> set cache"
  with assms show "\<exists>due. delete_dues k ts = [due] \<and>
      (\<forall>r \<in> set log. errorKey (snd r) = k \<longrightarrow> fst r + 60000 \<le> due)"
    using cache_ok_in by fastforce
next
  fix k
  assume "k \<notin> set cache"
  with assms have "delete_dues k ((due, Decrement_count) # ts) = []"
    and "\<And>r. r \<in> set log \<Longrightarrow> errorKey (snd r) = k \<Longrightarrow> fst r + 60000 \<le> now"
    by (rule cache_ok_out)+
  then show "delete_dues k ts = [] \<and>
      (\<forall>r \<in> set log. errorKey (snd r) = k \<longrightarrow> fst r + 60000 \<le> now)"
    by simp
qed

subsection \<open>The counter and its timers\<close>

lemma count_ok_later:
  assumes "count_ok now n ts log" "now \<le> now'"
  shows "count_ok now' n ts log"
  using assms unfolding count_ok_def by auto

lemma count_ok_limited:
  assumes "count_ok now n ts log"
  shows "count_ok now (n + 1) (ts @ [(d, Delete_key k)]) log"
  using assms unfolding count_ok_def by auto

lemma count_ok_sync:
  assumes "count_ok now n ts log" "is_sync ev"
  shows "count_ok now (n + 1)
    (ts @ [(now + 60000, Delete_key k), (now + 60000, Decrement_count)]) (log @ [(now, ev)])"
proof -
  from assms(2) have "\<not> is_rejection ev"
    by (cases ev) simp_all
  with assms show ?thesis
    unfolding count_ok_def by auto
qed

lemma count_ok_rejection:
  assumes "count_ok now n ts log" "is_rejection ev"
  shows "count_ok now (n + 1) (ts @ [(d, Delete_key k)]) (log @ [(now, ev)])"
proof -
  from assms(2) have "\<not> is_sync ev"
    by (cases ev) simp_all
  with assms show ?thesis
    unfolding count_ok_def by auto
qed

lemma count_ok_fire_delete:
  assumes "count_ok now n ((due, Delete_key k) # ts) log"
  shows "count_ok now n ts log"
  using assms unfolding count_ok_def by simp

lemma count_ok_fire_decrement:
  assumes "count_ok now n ((due, Decrement_count) # ts) log" "due \<le> now"
  shows "count_ok now (n - 1) ts log"
  using assms unfolding count_ok_def by auto

subsection \<open>The log\<close>

lemma length_filter_split:
  assumes "\<forall>x \<in> set xs. A x \<or> B x"
  shows "length (filter P xs) \<le>
    length (filter (\<lambda>x. A x \<and> P x) xs) + length (filter B xs)"
  using assms by (induction xs) auto

lemma young_reports_bound:
  assumes ok: "count_ok now n ts log" and T: "now \<le> T"
  shows "int (length (filter (\<lambda>r. T < fst r + 60000) log)) \<le> n"
proof -
  from ok have kinds: "\<forall>r \<in> set log. is_sync (snd r) \<or> is_rejection (snd r)"
    and sync: "length (filter (\<lambda>r. is_sync (snd r) \<and> T < fst r + 60000) log) \<le>
      length (filter (\<lambda>d. T < d) (decrement_dues ts))"
    and n: "int (length (decrement_dues ts)) +
      int (length (filter (\<lambda>r. is_rejection (snd r)) log)) \<le> n"
    using T unfolding count_ok_def by auto
  have "length (filter (\<lambda>r. T < fst r + 60000) log) \<le>
      length (filter (\<lambda>r. is_sync (snd r) \<and> T < fst r + 60000) log) +
      length (filter (\<lambda>r. is_rejection (snd r)) log)"
    using kinds by (rule length_filter_split)
  also have "\<dots> \<le> length (filter (\<lambda>d. T < d) (decrement_dues ts)) +
      length (filter (\<lambda>r. is_rejection (snd r)) log)"
    using sync by simp
  also have "\<dots> \<le> length (decrement_dues ts) + length (filter (\<lambda>r. is_rejection (snd r)) log)"
    by simp
  finally show ?thesis
    using n by linarith
qed

lemma in_minute_forward:
  assumes ok: "count_ok now n ts log" and n: "n + 1 \<le> 10"
    and old: "\<forall>T. length (in_minute T log) \<le> 10"
  shows "length (in_minute T (log @ [(now, ev)])) \<le> 10"
proof (cases "now \<le> T \<and> T < now + 60000")
  case False
  then have "in_minute T (log @ [(now, ev)]) = in_minute T log"
    by (auto simp: in_minute_def)
  with old show ?thesis
    by simp
next
  case True
  then have "int (length (filter (\<lambda>r. T < fst r + 60000) log)) \<le> n"
    using young_reports_bound [OF ok] by simp
  moreover have "length (in_minute T log) \<le> length (filter (\<lambda>r. T < fst r + 60000) log)"
    unfolding in_minute_def by (induction log) auto
  moreover have "length (in_minute T (log @ [(now, ev)])) = length (in_minute T log) + 1"
    using True by (simp add: in_minute_def)
  ultimately show ?thesis
    using n by linarith
qed

subsection \<open>Every step keeps the invariant\<close>

lemma reporter_ok_later:
  assumes "reporter_ok now s" "now \<le> now'"
  shows "reporter_ok now' s"
  using assms cache_ok_later [OF _ assms(2)] count_ok_later [OF _ assms(2)]
  unfolding reporter_ok_def by fastforce

lemma reporter_ok_handler:
  assumes ok: "reporter_ok now s"
    and ev: "is_sync ev \<and> s' = onerror now ev s \<or>
      is_rejection ev \<and> s' = onunhandledrejection now ev s"
  shows "reporter_ok now s'"
proof (cases "errorKey ev \<in> set (errorCache s)")
  case True
  with ev have "s' = s"
    by (auto simp: onerror_known)
  with ok show ?thesis
    by simp
next
  case new: False
  from ok have cache: "cache_ok now (errorCache s) (timers s) (forwarded s)"
    and count: "count_ok now (errorCount s) (timers s) (forwarded s)"
    and rate: "\<forall>T. length (in_minute T (forwarded s)) \<le> 10"
    and spaced: "spaced (forwarded s)"
    and times: "\<forall>r \<in> set (forwarded s). fst r \<le> now"
    unfolding reporter_ok_def by simp_all
  show ?thesis
  proof (cases "errorCount s + 1 > 10")
    case True
    with new ev have s': "s' = s\<lparr>errorCache := errorKey ev # errorCache s,
        errorCount := errorCount s + 1,
        timers := timers s @ [(now + 60000, Delete_key (errorKey ev))]\<rparr>"
      by (auto simp: onerror_limited)
    have "cache_ok now (errorKey ev # errorCache s)
        (timers s @ (now + 60000, Delete_key (errorKey ev)) # []) (forwarded s)"
      using cache new by (rule cache_ok_add) auto
    moreover have "count_ok now (errorCount s + 1)
        (timers s @ [(now + 60000, Delete_key (errorKey ev))]) (forwarded s)"
      using count by (rule count_ok_limited)
    ultimately show ?thesis
      using rate spaced times unfolding reporter_ok_def s' by simp
  next
    case False
    define extra where "extra = (if is_sync ev then [(now + 60000, Decrement_count)] else [])"
    from ev have kind: "is_sync ev \<or> is_rejection ev" and excl: "is_sync ev \<longleftrightarrow> \<not> is_rejection ev"
      by (cases ev; auto)+
    from False new ev have s': "s' = s\<lparr>errorCache := errorKey ev # errorCache s,
        errorCount := errorCount s + 1,
        timers := timers s @ (now + 60000, Delete_key (errorKey ev)) # extra,
        forwarded := forwarded s @ [(now, ev)]\<rparr>"
      using excl by (auto simp: onerror_forwarded extra_def)
    have "cache_ok now (errorKey ev # errorCache s)
        (timers s @ (now + 60000, Delete_key (errorKey ev)) # extra) (forwarded s @ [(now, ev)])"
      using cache new by (rule cache_ok_add) (auto simp: extra_def)
    moreover have "count_ok now (errorCount s + 1)
        (timers s @ (now + 60000, Delete_key (errorKey ev)) # extra) (forwarded s @ [(now, ev)])"
    proof (cases "is_sync ev")
      case True
      with count_ok_sync [OF count True] show ?thesis
        by (simp add: extra_def)
    next
      case False
      with kind have "is_rejection ev"
        by simp
      from count_ok_rejection [OF count this] False show ?thesis
        by (simp add: extra_def)
    qed
    moreover have "\<forall>T. length (in_minute T (forwarded s @ [(now, ev)])) \<le> 10"
      using in_minute_forward [OF count _ rate] False by simp
    moreover have "spaced (forwarded s @ [(now, ev)])"
      using spaced cache_ok_out(2) [OF cache new] by (auto simp: spaced_snoc)
    ultimately show ?thesis
      using times unfolding reporter_ok_def s' by simp
  qed
qed

lemma reporter_ok_run_timer:
  assumes ok: "reporter_ok now s"
  shows "reporter_ok now (run_timer now s)"
proof (cases "timers s")
  case Nil
  with ok show ?thesis
    by (simp add: run_timer_def)
next
  case (Cons p rest)
  obtain due f where p: "p = (due, f)"
    by (cases p)
  show ?thesis
  proof (cases "due \<le> now")
    case False
    with ok Cons p show ?thesis
      by (simp add: run_timer_def)
  next
    case True
    from ok Cons p have cache: "cache_ok now (errorCache s) ((due, f) # rest) (forwarded s)"
      and count: "count_ok now (errorCount s) ((due, f) # rest) (forwarded s)"
      and rest: "\<forall>T. length (in_minute T (forwarded s)) \<le> 10" "spaced (forwarded s)"
        "\<forall>r \<in> set (forwarded s). fst r \<le> now"
      unfolding reporter_ok_def by simp_all
    show ?thesis
    proof (cases f)
      case (Delete_key k)
      with True Cons p have "run_timer now s =
          s\<lparr>timers := rest, errorCache := removeAll k (errorCache s)\<rparr>"
        by (simp add: run_timer_def)
      moreover have "cache_ok now (removeAll k (errorCache s)) rest (forwarded s)"
        using cache True unfolding Delete_key by (rule cache_ok_fire_delete)
      moreover have "count_ok now (errorCount s) rest (forwarded s)"
        using count unfolding Delete_key by (rule count_ok_fire_delete)
      ultimately show ?thesis
        using rest unfolding reporter_ok_def by simp
    next
      case Decrement_count
      with True Cons p have "run_timer now s =
          s\<lparr>timers := rest, errorCount := errorCount s - 1\<rparr>"
        by (simp add: run_timer_def)
      moreover have "cache_ok now (errorCache s) rest (forwarded s)"
        using cache unfolding Decrement_count by (rule cache_ok_fire_decrement)
      moreover have "count_ok now (errorCount s - 1) rest (forwarded s)"
        using count True unfolding Decrement_count by (rule count_ok_fire_decrement)
      ultimately show ?thesis
        using rest unfolding reporter_ok_def by simp
    qed
  qed
qed

lemma reporter_ok_step:
  assumes "reporter_ok now s" "now \<le> t"
  shows "reporter_ok t (step t i s)"
proof -
  from assms have ok: "reporter_ok t s"
    by (rule reporter_ok_later)
  show ?thesis
  proof (cases i)
    case (Sync_error m src l c)
    with reporter_ok_handler [OF ok, of i "step t i s"] show ?thesis
      by simp
  next
    case (Rejection m)
    with reporter_ok_handler [OF ok, of i "step t i s"] show ?thesis
      by simp
  next
    case Run_timer
    with reporter_ok_run_timer [OF ok] show ?thesis
      by simp
  qed
qed

lemma reporter_ok_initial: "reporter_ok 0 initial"
  by (simp add: reporter_ok_def initial_def cache_ok_def count_ok_def in_minute_def)

lemma reporter_ok_run:
  assumes "reporter_ok now s" "sorted (map fst history)" "\<forall>h \<in> set history. now \<le> fst h"
  shows "\<exists>now'. reporter_ok now' (run history s)"
  using assms
proof (induction history arbitrary: now s)
  case Nil
  then show ?case
    by auto
next
  case (Cons h history)
  obtain t i where h: "h = (t, i)"
    by (cases h)
  from Cons.prems h have "reporter_ok t (step t i s)"
    by (auto intro: reporter_ok_step)
  moreover from Cons.prems(2) h have "sorted (map fst history)" "\<forall>h' \<in> set history. t \<le> fst h'"
    by auto
  ultimately have "\<exists>now'. reporter_ok now' (run history (step t i s))"
    by (rule Cons.IH)
  with h show ?case
    by simp
qed

text \<open>
  Claim C8. In every history of the page whose times do not decrease, the handlers forward
  at most 10 reports in any minute (the reports at the times \<open>t\<close> with
  \<open>t \<le> T < t + 60000\<close>, for any \<open>T\<close>), and two forwarded reports of the same error (same
  message, source and line) are at least 60000 ms apart.
\<close>

theorem error_reports_limited:
  assumes "sorted (map fst history)"
  shows "length (in_minute T (forwarded (run history initial))) \<le> 10 \<and>
    (\<forall>i j. i < j \<and> j < length (forwarded (run history initial)) \<and>
       same_error (snd (forwarded (run history initial) ! i))
         (snd (forwarded (run history initial) ! j)) \<longrightarrow>
       fst (forwarded (run history initial) ! i) + 60000 \<le>
         fst (forwarded (run history initial) ! j))"
proof -
  obtain now where "reporter_ok now (run history initial)"
    using reporter_ok_run [OF reporter_ok_initial assms] by auto
  then have "\<forall>T. length (in_minute T (forwarded (run history initial))) \<le> 10"
    and "spaced (forwarded (run history initial))"
    unfolding reporter_ok_def by simp_all
  then show ?thesis
    using spaced_nth same_error_key by blast
qed

text \<open>
  A history in which the second and the last input repeat the error of the first: the
  report at 5 ms is suppressed, the one at 60000 ms, after the deleting timer has fired, is
  forwarded.
\<close>

theorem error_reports_limited_witness:
  "length (in_minute 60000 (forwarded (run
      [(0, Sync_error ''boom'' ''a.js'' 12 3), (5, Sync_error ''boom'' ''a.js'' 12 9),
       (60000, Run_timer), (60000, Sync_error ''boom'' ''a.js'' 12 9)] initial))) \<le> 10 \<and>
   forwarded (run
      [(0, Sync_error ''boom'' ''a.js'' 12 3), (5, Sync_error ''boom'' ''a.js'' 12 9),
       (60000, Run_timer), (60000, Sync_error ''boom'' ''a.js'' 12 9)] initial) =
     [(0, Sync_error ''boom'' ''a.js'' 12 3), (60000, Sync_error ''boom'' ''a.js'' 12 9)] \<and>
   fst (forwarded (run
      [(0, Sync_error ''boom'' ''a.js'' 12 3), (5, Sync_error ''boom'' ''a.js'' 12 9),
       (60000, Run_timer), (60000, Sync_error ''boom'' ''a.js'' 12 9)] initial) ! 0) + 60000 \<le>
   fst (forwarded (run
      [(0, Sync_error ''boom'' ''a.js'' 12 3), (5, Sync_error ''boom'' ''a.js'' 12 9),
       (60000, Run_timer), (60000, Sync_error ''boom'' ''a.js'' 12 9)] initial) ! 1)"
proof -
  define history where "history =
      [(0::nat, Sync_error ''boom'' ''a.js'' 12 3), (5, Sync_error ''boom'' ''a.js'' 12 9),
       (60000, Run_timer), (60000, Sync_error ''boom'' ''a.js'' 12 9)]"
  have "sorted (map fst history)"
    by (simp add: history_def)
  note limited = error_reports_limited [OF this, of 60000]
  have log: "forwarded (run history initial) =
     [(0, Sync_error ''boom'' ''a.js'' 12 3), (60000, Sync_error ''boom'' ''a.js'' 12 9)]"
    unfolding history_def
    by (simp add: initial_def onerror_def run_timer_def setTimeout_def Let_def
        MAX_ERRORS_PER_MINUTE_def)
  have same: "0 < (1::nat) \<and> 1 < length (forwarded (run history initial)) \<and>
      same_error (snd (forwarded (run history initial) ! 0))
        (snd (forwarded (run history initial) ! 1))"
    unfolding log by simp
  have "length (in_minute 60000 (forwarded (run history initial))) \<le> 10"
    using limited by (rule conjunct1)
  moreover have "fst (forwarded (run history initial) ! 0) + 60000 \<le>
      fst (forwarded (run history initial) ! 1)"
    using limited [THEN conjunct2, rule_format, OF same] .
  ultimately show ?thesis
    using log unfolding history_def by (intro conjI)
qed

section \<open>Properties of the passkey flows\<close>

lemma keyLogin_try_starts_with_request:
  "\<exists>acts. fst (keyLogin_try w) = Request ''/auth/passkey/login/options'' [] # acts"
  by (simp add: keyLogin_try_def Let_def
      split: sum.split option.split ceremony_result.split)

lemma registerPasskey_try_starts_with_request:
  "\<exists>acts. fst (registerPasskey_try w) = Request ''/auth/passkey/register/options'' [] # acts"
  by (simp add: registerPasskey_try_def Let_def
      split: sum.split option.split ceremony_result.split)

text \<open>
  With the capability, both flows begin with their request for options: the guard is the
  only thing that keeps the flows from the server.
\<close>

lemma flows_with_capability:
  assumes "has_PublicKeyCredential w" "has_PublicKeyCredential w'"
  shows "list_ex is_request (keyLogin_onclick w)" "list_ex is_request (registerPasskey w')"
proof -
  obtain acts err where "keyLogin_try w = (Request ''/auth/passkey/login/options'' [] # acts, err)"
    using keyLogin_try_starts_with_request [of w] by (cases "keyLogin_try w") auto
  with assms(1) show "list_ex is_request (keyLogin_onclick w)"
    by (simp add: keyLogin_onclick_def split: option.split)
  obtain acts' err' where
    "registerPasskey_try w' = (Request ''/auth/passkey/register/options'' [] # acts', err')"
    using registerPasskey_try_starts_with_request [of w'] by (cases "registerPasskey_try w'") auto
  with assms(2) show "list_ex is_request (registerPasskey w')"
    by (simp add: registerPasskey_def split: option.split)
qed

text \<open>
  Claim C9. When \<^verbatim>\<open>window.PublicKeyCredential\<close> is absent, the login flow does nothing
  but show the alert about the missing capability, and the registration flow does nothing
  but show its error message about it: neither sends a request to the server nor starts a
  WebAuthn ceremony.
\<close>

theorem passkey_capability_guard:
  assumes "\<not> has_PublicKeyCredential w" and "\<not> has_PublicKeyCredential w'"
  shows "keyLogin_onclick w = [Alert msg_browser_unsupported] \<and>
    registerPasskey w' = [ShowMsg ''error'' msg_unsupported] \<and>
    \<not> list_ex is_request (keyLogin_onclick w) \<and>
    \<not> list_ex is_ceremony (keyLogin_onclick w) \<and>
    \<not> list_ex is_request (registerPasskey w') \<and>
    \<not> list_ex is_ceremony (registerPasskey w')"
  using assms by (simp add: keyLogin_onclick_def registerPasskey_def)

theorem passkey_capability_guard_witness:
  "keyLogin_onclick
     \<lparr>has_PublicKeyCredential = False, argument_limit = 65536, options_res_ok = True,
      options_res_error = Unparsable,
      options_data = Inr \<lparr>data_ok = True,
        options = Some \<lparr>challenge = ''AQID'', allowCredentials = []\<rparr>, challengeId = ''c1''\<rparr>,
      ceremony_get = Cancelled, login_res_ok = True, login_res_error = Unparsable\<rparr> =
     [Alert msg_browser_unsupported] \<and>
   registerPasskey
     \<lparr>has_PublicKeyCredential = False, argument_limit = 65536, r1_ok = True, d1_ok = True,
      d1_options = Some \<lparr>reg_challenge = ''AQID'', user_id = ''dQ'', excludeCredentials = []\<rparr>,
      ceremony_create = Cancelled, prompt_answer = None, r2_ok = True, d2_ok = True,
      d2_error = Unparsable\<rparr> =
     [ShowMsg ''error'' msg_unsupported]"
proof -
  define w where "w =
     \<lparr>has_PublicKeyCredential = False, argument_limit = 65536, options_res_ok = True,
      options_res_error = Unparsable,
      options_data = Inr \<lparr>data_ok = True,
        options = Some \<lparr>challenge = ''AQID'', allowCredentials = []\<rparr>, challengeId = ''c1''\<rparr>,
      ceremony_get = Cancelled, login_res_ok = True, login_res_error = Unparsable\<rparr>"
  define w' where "w' =
     \<lparr>has_PublicKeyCredential = False, argument_limit = 65536, r1_ok = True, d1_ok = True,
      d1_options = Some \<lparr>reg_challenge = ''AQID'', user_id = ''dQ'', excludeCredentials = []\<rparr>,
      ceremony_create = Cancelled, prompt_answer = None, r2_ok = True, d2_ok = True,
      d2_error = Unparsable\<rparr>"
  have "\<not> has_PublicKeyCredential w" and "\<not> has_PublicKeyCredential w'"
    by (simp_all add: w_def w'_def)
  from passkey_capability_guard [OF this] show ?thesis
    unfolding w_def w'_def by blast
qed

end
